theory Spec2Isabelle
  imports Main "HOL-Library.Sublist" "HOL-Library.Multiset"
begin

section \<open>The security scanner of the Tribunal Agent Kit (security\_scan.py)\<close>

text \<open>
  The scanner reads source files line by line, matches every non-comment line against a
  fixed catalog of regular expressions, and collects one record per match. This theory
  embeds its functions \<open>scan_file\<close>, \<open>scan_directory\<close>, \<open>print_findings\<close> and \<open>main\<close>,
  together with the parts of Python's library they rest on: \<open>str.strip\<close>, \<open>re.search\<close> with
  \<open>re.IGNORECASE\<close>, \<open>os.path\<close>, \<open>os.walk\<close>, \<open>open\<close> with \<open>readlines\<close>, and the parser that
  \<open>main\<close> builds with \<open>argparse\<close>.

  Text is a \<^typ>\<open>string\<close>; a \<^typ>\<open>char\<close> stands for one code point of a Python \<open>str\<close>, so
  the model covers text whose code points lie below 256. All character tables below are
  Python's tables restricted to that range.
\<close>

subsection \<open>Characters\<close>

abbreviation dquote :: char where "dquote \<equiv> CHR 0x22"
abbreviation squote :: char where "squote \<equiv> CHR 0x27"
abbreviation newline :: char where "newline \<equiv> CHR 0x0A"

definition code :: "char \<Rightarrow> nat" where
  "code c = of_char c"

definition in_range :: "nat \<Rightarrow> nat \<Rightarrow> char \<Rightarrow> bool" where
  "in_range lo hi c = (lo \<le> code c \<and> code c \<le> hi)"

text \<open>\<open>str.isspace\<close>, which is also what \<open>\s\<close> matches: tab to carriage return, the four
  separators 0x1C to 0x1F, space, NEL and the no-break space.\<close>

definition isspace :: "char \<Rightarrow> bool" where
  "isspace c = (in_range 0x09 0x0D c \<or> in_range 0x1C 0x20 c \<or> code c = 0x85 \<or> code c = 0xA0)"

text \<open>What \<open>\w\<close> matches: \<open>str.isalnum\<close> or the underscore.\<close>

definition isword :: "char \<Rightarrow> bool" where
  "isword c = (in_range 0x30 0x39 c \<or> in_range 0x41 0x5A c \<or> code c = 0x5F \<or> in_range 0x61 0x7A c
     \<or> code c = 0xAA \<or> in_range 0xB2 0xB3 c \<or> code c = 0xB5 \<or> in_range 0xB9 0xBA c
     \<or> in_range 0xBC 0xBE c \<or> in_range 0xC0 0xD6 c \<or> in_range 0xD8 0xF6 c \<or> in_range 0xF8 0xFF c)"

text \<open>Case mapping of the letters a pattern of the catalog can name: all of them are ASCII.\<close>

definition lower :: "char \<Rightarrow> char" where
  "lower c = (if in_range 0x41 0x5A c then char_of (code c + 32) else c)"

definition upper :: "char \<Rightarrow> char" where
  "upper c = (if in_range 0x61 0x7A c then char_of (code c - 32) else c)"

subsection \<open>\<open>str.strip\<close> and \<open>str.startswith\<close>\<close>

definition strip :: "string \<Rightarrow> string" where
  "strip s = rev (dropWhile isspace (rev (dropWhile isspace s)))"

definition startswith :: "string \<Rightarrow> string \<Rightarrow> bool" where
  "startswith s p = (take (length p) s = p)"

subsection \<open>Regular expressions: \<open>re.search\<close> under \<open>re.IGNORECASE\<close>\<close>

text \<open>
  The constructs the catalog uses. A character class is a list of inclusive ranges and a
  flag that is \<open>True\<close> for a negated class \<open>[^...]\<close>.
\<close>

datatype regex =
    Lit char
  | Dot
  | Cls bool "(char \<times> char) list"
  | Space
  | WordB
  | Seq regex regex
  | Alt regex regex
  | Star regex
  | Eps

definition Cat :: "regex list \<Rightarrow> regex" where
  "Cat rs = foldr Seq rs Eps"

definition Str :: "string \<Rightarrow> regex" where
  "Str s = Cat (map Lit s)"

fun Alts :: "regex list \<Rightarrow> regex" where
  "Alts [] = Eps"
| "Alts [r] = r"
| "Alts (r # rs) = Alt r (Alts rs)"

definition Plus :: "regex \<Rightarrow> regex" where
  "Plus r = Seq r (Star r)"

definition AtLeast :: "nat \<Rightarrow> regex \<Rightarrow> regex" where
  "AtLeast n r = Cat (replicate n r @ [Star r])"

text \<open>
  A cursor is a position in the text: the character before it, if any, and the text from it
  on. \<open>run r c\<close> lists the cursors at which a match of \<open>r\<close> that starts at \<open>c\<close> can end.
  \<open>re.search\<close> only asks whether some match exists, so the order in which a backtracking
  matcher would try them does not matter.
\<close>

type_synonym cursor = "char option \<times> string"

fun one_char :: "(char \<Rightarrow> bool) \<Rightarrow> cursor \<Rightarrow> cursor list" where
  "one_char P (p, []) = []"
| "one_char P (p, c # cs) = (if P c then [(Some c, cs)] else [])"

definition in_class :: "(char \<times> char) list \<Rightarrow> char \<Rightarrow> bool" where
  "in_class items c = list_ex (\<lambda>(lo, hi). code lo \<le> code c \<and> code c \<le> code hi) items"

text \<open>Under IGNORECASE a class holds a character when it holds it in either case.\<close>

definition class_matches :: "bool \<Rightarrow> (char \<times> char) list \<Rightarrow> char \<Rightarrow> bool" where
  "class_matches neg items c =
     ((in_class items c \<or> in_class items (lower c) \<or> in_class items (upper c)) \<noteq> neg)"

fun word_here :: "char option \<Rightarrow> bool" where
  "word_here None = False"
| "word_here (Some c) = isword c"

fun next_char :: "string \<Rightarrow> char option" where
  "next_char [] = None"
| "next_char (c # cs) = Some c"

text \<open>\<open>\b\<close>: a word character on exactly one side; the ends of the text count as non-word.\<close>

fun at_boundary :: "cursor \<Rightarrow> cursor list" where
  "at_boundary (p, s) = (if word_here p \<noteq> word_here (next_char s) then [(p, s)] else [])"

text \<open>
  Repetition. Every further round must consume a character (a round that consumes nothing
  ends where it began), so as many rounds as characters remain reach every end.
\<close>

fun star_from :: "(cursor \<Rightarrow> cursor list) \<Rightarrow> nat \<Rightarrow> cursor \<Rightarrow> cursor list" where
  "star_from f 0 c = [c]"
| "star_from f (Suc n) c =
     c # concat (map (star_from f n) (filter (\<lambda>c'. length (snd c') < length (snd c)) (f c)))"

fun run :: "regex \<Rightarrow> cursor \<Rightarrow> cursor list" where
  "run (Lit a) c = one_char (\<lambda>x. lower x = lower a) c"
| "run Dot c = one_char (\<lambda>x. x \<noteq> newline) c"
| "run (Cls neg items) c = one_char (class_matches neg items) c"
| "run Space c = one_char isspace c"
| "run WordB c = at_boundary c"
| "run (Seq r1 r2) c = concat (map (run r2) (run r1 c))"
| "run (Alt r1 r2) c = run r1 c @ run r2 c"
| "run (Star r) c = star_from (run r) (length (snd c)) c"
| "run Eps c = [c]"

text \<open>\<open>re.search\<close>: a match may start at any position, the end of the text included.\<close>

fun search_from :: "regex \<Rightarrow> char option \<Rightarrow> string \<Rightarrow> bool" where
  "search_from r p [] = (run r (p, []) \<noteq> [])"
| "search_from r p (c # cs) = (run r (p, c # cs) \<noteq> [] \<or> search_from r (Some c) cs)"

definition re_search :: "regex \<Rightarrow> string \<Rightarrow> bool" where
  "re_search r s = search_from r None s"

subsection \<open>The catalog\<close>

text \<open>
  \<open>PATTERNS\<close>: each rule is a pattern with its severity, category and message, in the
  order of the source. The dash in six of the messages is U+2014, outside the range of
  \<^typ>\<open>char\<close>; a message is only ever copied, and the dash is written as its three UTF-8
  bytes.
\<close>

type_synonym rule = "regex \<times> string \<times> string \<times> string"

abbreviation quote :: regex where
  "quote \<equiv> Cls False [(dquote, dquote), (squote, squote)]"

abbreviation not_quote :: regex where
  "not_quote \<equiv> Cls True [(dquote, dquote), (squote, squote)]"

abbreviation spaces :: regex where
  "spaces \<equiv> Star Space"

abbreviation dash :: string where
  "dash \<equiv> [CHR 0xE2, CHR 0x80, CHR 0x94]"

definition PATTERNS :: "rule list" where
  "PATTERNS = [
    (Cat [Alts [Str ''password'', Str ''passwd'', Str ''pwd''], spaces, Lit CHR ''='', spaces,
          quote, Plus not_quote, quote],
     ''critical'', ''Hardcoded Secret'', ''Hardcoded password detected''),
    (Cat [Alts [Str ''api_key'', Str ''apikey'', Str ''api_secret''], spaces, Lit CHR ''='', spaces,
          quote, Plus not_quote, quote],
     ''critical'', ''Hardcoded Secret'', ''Hardcoded API key detected''),
    (Cat [Alts [Str ''secret'', Str ''token'', Str ''auth_token''], spaces, Lit CHR ''='', spaces,
          quote,
          AtLeast 16 (Cls False [(CHR ''A'', CHR ''Z''), (CHR ''a'', CHR ''z''), (CHR ''0'', CHR ''9''),
                                 (CHR ''+'', CHR ''+''), (CHR ''/'', CHR ''/''), (CHR ''='', CHR ''='')]),
          quote],
     ''critical'', ''Hardcoded Secret'', ''Hardcoded secret/token detected''),
    (Cat [Alts [Str ''PRIVATE_KEY'', Str ''private_key''], spaces, Lit CHR ''='', spaces, quote],
     ''critical'', ''Hardcoded Secret'', ''Hardcoded private key detected''),

    (Cat [Alts [Str ''query'', Str ''execute'', Str ''raw''], spaces, Lit CHR ''('', spaces,
          Cls False [(CHR 0x60, CHR 0x60), (dquote, dquote), (squote, squote)],
          Star Dot, Str ''${''],
     ''high'', ''SQL Injection'',
     ''String interpolation in SQL query '' @ dash @ '' use parameterized queries''),
    (Cat [Alts [Str ''query'', Str ''execute'', Str ''raw''], spaces, Lit CHR ''('', spaces,
          quote, Star Dot, Lit CHR ''+'', spaces,
          Alts [Str ''req'', Str ''input'', Str ''params'', Str ''body'']],
     ''high'', ''SQL Injection'', ''String concatenation with user input in SQL''),
    (Cat [Str ''.raw'', spaces, Lit CHR ''('', spaces, Lit CHR 0x60],
     ''medium'', ''SQL Injection'',
     ''Raw query with template literal '' @ dash @ '' verify inputs are sanitized''),

    (Cat [Str ''.innerHTML'', spaces, Lit CHR ''=''],
     ''high'', ''XSS'', ''Direct innerHTML assignment '' @ dash @ '' use textContent or a sanitizer''),
    (Str ''dangerouslySetInnerHTML'',
     ''medium'', ''XSS'', ''dangerouslySetInnerHTML used '' @ dash @ '' ensure input is sanitized''),
    (Cat [Str ''document.write'', spaces, Lit CHR ''(''],
     ''high'', ''XSS'', ''document.write() is an XSS vector''),

    (Cat [WordB, Str ''eval'', spaces, Lit CHR ''(''],
     ''high'', ''Code Injection'', ''eval() is a code injection vector '' @ dash @ '' avoid entirely''),
    (Cat [Str ''new'', Plus Space, Str ''Function'', spaces, Lit CHR ''(''],
     ''high'', ''Code Injection'', ''new Function() is equivalent to eval()''),
    (Cat [Str ''child_process.exec'', spaces, Lit CHR ''(''],
     ''medium'', ''Command Injection'',
     ''exec() with unsanitized input is a command injection vector''),
    (Cat [Str ''subprocess.call'', spaces, Lit CHR ''('', spaces,
          Star (Cls True [(CHR '','', CHR '',''), (CHR '']'', CHR '']'')]),
          WordB, Str ''shell'', spaces, Lit CHR ''='', spaces, Str ''True''],
     ''high'', ''Command Injection'',
     ''subprocess with shell=True '' @ dash @ '' use shell=False and pass args as list''),

    (Cat [Str ''createHash'', spaces, Lit CHR ''('', spaces, quote, Str ''md5'', quote],
     ''medium'', ''Weak Crypto'', ''MD5 is cryptographically broken '' @ dash @ '' use SHA-256+''),
    (Cat [Str ''createHash'', spaces, Lit CHR ''('', spaces, quote, Str ''sha1'', quote],
     ''medium'', ''Weak Crypto'', ''SHA-1 is deprecated '' @ dash @ '' use SHA-256+''),
    (Cat [Str ''Math.random'', spaces, Lit CHR ''(''],
     ''low'', ''Weak Randomness'',
     ''Math.random() is not cryptographically secure '' @ dash @ '' use crypto.randomBytes()''),

    (Cat [Str ''algorithms'', spaces, Lit CHR '':'', spaces, Lit CHR ''['', spaces,
          quote, Str ''none'', quote],
     ''critical'', ''Auth Bypass'', ''JWT '' @ [squote] @ ''none'' @ [squote] @ '' algorithm allows auth bypass''),
    (Cat [Str ''verify'', spaces, Lit CHR '':'', spaces, Str ''false''],
     ''high'', ''Auth Bypass'', ''SSL/TLS verification disabled''),
    (Cat [Str ''rejectUnauthorized'', spaces, Lit CHR '':'', spaces, Str ''false''],
     ''high'', ''Auth Bypass'', ''TLS certificate validation disabled''),

    (Cat [Str ''console.log'', spaces, Lit CHR ''('', Star Dot,
          Alts [Str ''password'', Str ''secret'', Str ''token'', Str ''key'']],
     ''medium'', ''Info Disclosure'', ''Sensitive data logged to console''),
    (Cat [Str ''.env'', Alts [Str ''.local'', Str ''.production'']],
     ''low'', ''Info Disclosure'', ''Env file reference '' @ dash @ '' ensure not committed to git'')
  ]"

subsection \<open>Findings and the scan of one file\<close>

record Finding =
  severity :: string
  category :: string
  "file" :: string
  line :: int
  message :: string
  snippet :: string

text \<open>The body of the loop over the lines of a file: one line, with its number.\<close>

definition is_comment :: "string \<Rightarrow> bool" where
  "is_comment stripped =
     (startswith stripped ''//'' \<or> startswith stripped ''#'' \<or> startswith stripped ''*'')"

definition matching_rules :: "string \<Rightarrow> rule list" where
  "matching_rules stripped = filter (\<lambda>(pattern, sev, cat, msg). re_search pattern stripped) PATTERNS"

text \<open>The \<open>Finding(...)\<close> that a rule makes of a line: the rule's severity, category and
  message, and the first 120 characters of the stripped line.\<close>

definition finding_of :: "string \<Rightarrow> int \<Rightarrow> string \<Rightarrow> rule \<Rightarrow> Finding" where
  "finding_of rel_path line_num stripped r =
     (case r of (pattern, sev, cat, msg) \<Rightarrow>
        \<lparr>severity = sev, category = cat, file = rel_path, line = line_num,
         message = msg, snippet = take 120 stripped\<rparr>)"

definition scan_line :: "string \<Rightarrow> int \<Rightarrow> string \<Rightarrow> Finding list" where
  "scan_line rel_path line_num ln =
     (let stripped = strip ln in
      if is_comment stripped then []
      else map (finding_of rel_path line_num stripped) (matching_rules stripped))"

fun enumerate_from :: "int \<Rightarrow> 'a list \<Rightarrow> (int \<times> 'a) list" where
  "enumerate_from n [] = []"
| "enumerate_from n (x # xs) = (n, x) # enumerate_from (n + 1) xs"

definition scan_lines :: "string \<Rightarrow> string list \<Rightarrow> Finding list" where
  "scan_lines rel_path lines = concat (map (\<lambda>(line_num, ln). scan_line rel_path line_num ln) (enumerate_from 1 lines))"

subsection \<open>Paths: \<open>os.path\<close> and \<open>pathlib\<close> on POSIX\<close>

text \<open>The exceptions that the library calls of the scanner can raise.\<close>

datatype error = ValueError | OSError | UnicodeDecodeError

abbreviation sep :: char where "sep \<equiv> CHR ''/''"

definition isabs :: "string \<Rightarrow> bool" where
  "isabs p = startswith p ''/''"

definition os_path_join :: "string \<Rightarrow> string \<Rightarrow> string" where
  "os_path_join a b =
     (if startswith b ''/'' then b
      else if a = [] \<or> last a = sep then a @ b
      else a @ [sep] @ b)"

text \<open>\<open>str.split('/')\<close> and \<open>'/'.join\<close>.\<close>

fun split_sep :: "string \<Rightarrow> string list" where
  "split_sep [] = [[]]"
| "split_sep (c # cs) =
     (if c = sep then [] # split_sep cs
      else (case split_sep cs of [] \<Rightarrow> [[c]] | w # ws \<Rightarrow> (c # w) # ws))"

fun sep_join :: "string list \<Rightarrow> string" where
  "sep_join [] = []"
| "sep_join [x] = x"
| "sep_join (x # xs) = x @ [sep] @ sep_join xs"

text \<open>The loop of \<open>posixpath.normpath\<close> over the components, \<open>new_comps\<close> in its last argument.\<close>

fun norm_comps :: "bool \<Rightarrow> string list \<Rightarrow> string list \<Rightarrow> string list" where
  "norm_comps initial_slashes [] new_comps = new_comps"
| "norm_comps initial_slashes (cmp # comps) new_comps =
     (if cmp = [] \<or> cmp = ''.'' then norm_comps initial_slashes comps new_comps
      else if cmp \<noteq> ''..'' \<or> (\<not> initial_slashes \<and> new_comps = [])
              \<or> (new_comps \<noteq> [] \<and> last new_comps = ''..'')
        then norm_comps initial_slashes comps (new_comps @ [cmp])
      else if new_comps \<noteq> [] then norm_comps initial_slashes comps (butlast new_comps)
      else norm_comps initial_slashes comps new_comps)"

definition normpath :: "string \<Rightarrow> string" where
  "normpath path =
     (if path = [] then ''.''
      else
        let initial_slashes =
              (if startswith path ''/''
               then (if startswith path ''//'' \<and> \<not> startswith path ''///'' then 2 else 1)
               else (0::nat));
            comps = norm_comps (initial_slashes \<noteq> 0) (split_sep path) [];
            p = replicate initial_slashes sep @ sep_join comps
        in if p = [] then ''.'' else p)"

text \<open>\<open>Path(filename).suffix\<close> for a name without separators, as Python 3.10 to 3.13 compute it:
  from the last dot on, unless that dot is the first or the last character.\<close>

fun rfind :: "string \<Rightarrow> char \<Rightarrow> nat option" where
  "rfind [] c = None"
| "rfind (x # xs) c =
     (case rfind xs c of Some i \<Rightarrow> Some (Suc i) | None \<Rightarrow> if x = c then Some 0 else None)"

definition path_suffix :: "string \<Rightarrow> string" where
  "path_suffix name =
     (case rfind name CHR ''.'' of
        None \<Rightarrow> []
      | Some i \<Rightarrow> if 0 < i \<and> i + 1 < length name then drop i name else [])"

subsection \<open>Reading a file as text\<close>

text \<open>
  \<open>open(filepath, "r", encoding="utf-8", errors=...)\<close> decodes the bytes of a file, and
  \<open>readlines()\<close> cuts the text into lines. The bytes are given as the decoder takes them,
  piece by piece: a well-formed UTF-8 sequence, named by its code point, or a byte that
  belongs to no well-formed sequence. Under \<open>errors="strict"\<close>, the default, such a byte
  raises \<open>UnicodeDecodeError\<close>; under \<open>errors="ignore"\<close> it is left out of the text.
\<close>

datatype encoded = Valid char | Invalid char

datatype handler = Strict | Ignore

fun decode :: "handler \<Rightarrow> encoded list \<Rightarrow> error + string" where
  "decode h [] = Inr []"
| "decode h (Valid c # bs) = (case decode h bs of Inl e \<Rightarrow> Inl e | Inr s \<Rightarrow> Inr (c # s))"
| "decode h (Invalid b # bs) =
     (case h of Strict \<Rightarrow> Inl UnicodeDecodeError | Ignore \<Rightarrow> decode h bs)"

text \<open>
  Universal newlines, the default of \<open>open\<close>: \<open>\r\n\<close> and \<open>\r\<close> are read as \<open>\n\<close>. The flag
  says that the character before was a carriage return.
\<close>

abbreviation carriage_return :: char where "carriage_return \<equiv> CHR 0x0D"

fun universal_newlines :: "bool \<Rightarrow> string \<Rightarrow> string" where
  "universal_newlines after_cr [] = []"
| "universal_newlines after_cr (c # cs) =
     (if c = carriage_return then newline # universal_newlines True cs
      else if c = newline \<and> after_cr then universal_newlines False cs
      else c # universal_newlines False cs)"

text \<open>The lines of a text, each with its \<open>\n\<close>; the last one may lack it.\<close>

fun split_lines :: "string \<Rightarrow> string list" where
  "split_lines [] = []"
| "split_lines (c # cs) =
     (if c = newline then [c] # split_lines cs
      else (case split_lines cs of [] \<Rightarrow> [[c]] | l # ls \<Rightarrow> (c # l) # ls))"

text \<open>\<open>f.readlines()\<close> for a file opened with the handler \<open>h\<close>.\<close>

definition readlines :: "handler \<Rightarrow> encoded list \<Rightarrow> error + string list" where
  "readlines h bs =
     (case decode h bs of
        Inl e \<Rightarrow> Inl e
      | Inr text \<Rightarrow> Inr (split_lines (universal_newlines False text)))"

subsection \<open>The file system\<close>

text \<open>
  A tree of directories and files, the working directory of the process, no symbolic links.
  A directory lists its entries in the order in which the operating system reports them. A
  file holds its bytes, or \<open>None\<close> when it cannot be opened for reading (permission denied).
\<close>

datatype node = File "encoded list option" | Dir "(string \<times> node) list"

record filesystem =
  tree :: node
  cwd :: string

fun is_dir :: "node \<Rightarrow> bool" where
  "is_dir (Dir es) = True"
| "is_dir (File c) = False"

fun child :: "node \<Rightarrow> string \<Rightarrow> node option" where
  "child (Dir es) n = map_of es n"
| "child (File c) n = None"

fun node_at :: "node \<Rightarrow> string list \<Rightarrow> node option" where
  "node_at t [] = Some t"
| "node_at t (n # ns) = (case child t n of None \<Rightarrow> None | Some t' \<Rightarrow> node_at t' ns)"

text \<open>
  The kernel's walk along the components of a path, from the directory named by \<open>cur\<close>: an
  empty component and \<open>.\<close> stay, \<open>..\<close> goes up (the root is its own parent), and every
  component is looked up in a directory.
\<close>

fun namei :: "node \<Rightarrow> string list \<Rightarrow> string list \<Rightarrow> string list option" where
  "namei t cur [] = Some cur"
| "namei t cur (c # cs) =
     (case node_at t cur of
        Some (Dir es) \<Rightarrow>
          if c = [] \<or> c = ''.'' then namei t cur cs
          else if c = ''..'' then namei t (butlast cur) cs
          else namei t (cur @ [c]) cs
      | _ \<Rightarrow> None)"

definition resolve :: "filesystem \<Rightarrow> string \<Rightarrow> node option" where
  "resolve fs p =
     (if p = [] then None
      else case namei (tree fs) [] (split_sep (if isabs p then p else os_path_join (cwd fs) p)) of
             None \<Rightarrow> None
           | Some names \<Rightarrow> node_at (tree fs) names)"

definition isfile :: "filesystem \<Rightarrow> string \<Rightarrow> bool" where
  "isfile fs p = (case resolve fs p of Some (File c) \<Rightarrow> True | _ \<Rightarrow> False)"

definition isdir :: "filesystem \<Rightarrow> string \<Rightarrow> bool" where
  "isdir fs p = (case resolve fs p of Some (Dir es) \<Rightarrow> True | _ \<Rightarrow> False)"

text \<open>
  The \<open>with open(filepath, "r", encoding="utf-8", errors="ignore")\<close> block of \<open>scan_file\<close>:
  the lines, or the exception raised. A path that names no file, or a file that cannot be
  opened, raises \<open>OSError\<close>, of which \<open>IOError\<close> is another name and \<open>PermissionError\<close> a
  subclass.
\<close>

definition read_content :: "encoded list option \<Rightarrow> error + string list" where
  "read_content c = (case c of None \<Rightarrow> Inl OSError | Some bs \<Rightarrow> readlines Ignore bs)"

definition open_readlines :: "filesystem \<Rightarrow> string \<Rightarrow> error + string list" where
  "open_readlines fs p = (case resolve fs p of Some (File c) \<Rightarrow> read_content c | _ \<Rightarrow> Inl OSError)"

definition abspath :: "filesystem \<Rightarrow> string \<Rightarrow> string" where
  "abspath fs p = normpath (if isabs p then p else os_path_join (cwd fs) p)"

text \<open>\<open>os.path.relpath(path, start)\<close>; it raises \<open>ValueError\<close> on an empty path.\<close>

definition relpath :: "filesystem \<Rightarrow> string \<Rightarrow> string \<Rightarrow> error + string" where
  "relpath fs p start =
     (if p = [] then Inl ValueError
      else
        let start_list = filter (\<lambda>x. x \<noteq> []) (split_sep (abspath fs start));
            path_list = filter (\<lambda>x. x \<noteq> []) (split_sep (abspath fs p));
            i = length (longest_common_prefix start_list path_list);
            rel_list = replicate (length start_list - i) ''..'' @ drop i path_list
        in Inr (if rel_list = [] then ''.'' else sep_join rel_list))"

subsection \<open>\<open>scan_file\<close>\<close>

text \<open>
  \<open>scan_file_of\<close> is \<open>scan_file\<close> for what opening and reading the file gave: the \<open>except\<close>
  clause catches \<open>OSError\<close> and returns the empty list, and any other exception escapes.
  \<open>scan_file\<close> opens the file by its path. \<open>scan_opened\<close> names the findings that a file
  adds to the result: those of its lines, and none when opening it raised.
\<close>

definition scan_opened :: "string \<Rightarrow> error + string list \<Rightarrow> Finding list" where
  "scan_opened rel_path opened =
     (case opened of Inl e \<Rightarrow> [] | Inr lines \<Rightarrow> scan_lines rel_path lines)"

definition scan_file_of :: "filesystem \<Rightarrow> error + string list \<Rightarrow> string \<Rightarrow> string \<Rightarrow> error + Finding list" where
  "scan_file_of fs opened filepath project_root =
     (case relpath fs filepath project_root of
        Inl e \<Rightarrow> Inl e
      | Inr rel_path \<Rightarrow>
          (case opened of
             Inl e \<Rightarrow> if e = OSError then Inr [] else Inl e
           | Inr lines \<Rightarrow> Inr (scan_lines rel_path lines)))"

definition scan_file :: "filesystem \<Rightarrow> string \<Rightarrow> string \<Rightarrow> error + Finding list" where
  "scan_file fs filepath project_root =
     scan_file_of fs (open_readlines fs filepath) filepath project_root"

subsection \<open>\<open>scan_directory\<close>\<close>

definition SOURCE_EXTENSIONS :: "string set" where
  "SOURCE_EXTENSIONS = {''.ts'', ''.tsx'', ''.js'', ''.jsx'', ''.py'', ''.go'', ''.java'', ''.rb''}"

definition SKIP_DIRS :: "string set" where
  "SKIP_DIRS = {''node_modules'', ''.git'', ''dist'', ''build'', ''__pycache__'', ''.agent'',
                ''.next'', ''vendor''}"

text \<open>\<open>all_findings.extend\<close> over a sequence of scans: the first exception ends the loop.\<close>

fun extend_all :: "(error + 'a list) list \<Rightarrow> error + 'a list" where
  "extend_all [] = Inr []"
| "extend_all (Inl e # rs) = Inl e"
| "extend_all (Inr xs # rs) = (case extend_all rs of Inl e \<Rightarrow> Inl e | Inr ys \<Rightarrow> Inr (xs @ ys))"

text \<open>
  \<open>os.walk(top)\<close>, top down, as \<open>scan_directory\<close> drives it: each directory yields its path,
  the names of its subdirectories and its other entries; the caller removes the names in
  \<open>SKIP_DIRS\<close> from the list of subdirectories before the generator resumes, and the
  generator descends into the names that are left. The entries that are not directories
  come with what opening them gives, since in a tree \<open>os.path.join(root, filename)\<close>
  names that entry.
\<close>

type_synonym listing = "string \<times> string list \<times> (string \<times> (error + string list)) list"

fun nondirs :: "(string \<times> node) list \<Rightarrow> (string \<times> (error + string list)) list" where
  "nondirs [] = []"
| "nondirs ((n, File c) # es) = (n, read_content c) # nondirs es"
| "nondirs ((n, Dir sub) # es) = nondirs es"

fun subdirs :: "(string \<times> node) list \<Rightarrow> string list" where
  "subdirs [] = []"
| "subdirs ((n, File c) # es) = subdirs es"
| "subdirs ((n, Dir sub) # es) = n # subdirs es"

fun os_walk :: "string \<Rightarrow> node \<Rightarrow> listing list" where
  "os_walk dirpath (File c) = []"
| "os_walk dirpath (Dir es) =
     (dirpath, filter (\<lambda>d. d \<notin> SKIP_DIRS) (subdirs es), nondirs es)
     # concat (map (\<lambda>(d, sub). if is_dir sub \<and> d \<notin> SKIP_DIRS
                                 then os_walk (os_path_join dirpath d) sub else []) es)"

text \<open>The body of the loop over \<open>os.walk\<close>, for one directory.\<close>

definition scan_listing :: "filesystem \<Rightarrow> string \<Rightarrow> listing \<Rightarrow> (error + Finding list) list" where
  "scan_listing fs project_root l =
     (case l of (root, dirs, files) \<Rightarrow>
        map (\<lambda>(filename, opened). scan_file_of fs opened (os_path_join root filename) project_root)
            (filter (\<lambda>(filename, opened). path_suffix filename \<in> SOURCE_EXTENSIONS) files))"

text \<open>The body of the loop over \<open>target_files\<close>, for one path.\<close>

definition abs_path_of :: "string \<Rightarrow> string \<Rightarrow> string" where
  "abs_path_of project_root fpath =
     (if \<not> isabs fpath then os_path_join project_root fpath else fpath)"

definition scan_target :: "filesystem \<Rightarrow> string \<Rightarrow> string \<Rightarrow> error + Finding list" where
  "scan_target fs project_root fpath =
     (let abs_path = abs_path_of project_root fpath
      in if isfile fs abs_path then scan_file fs abs_path project_root else Inr [])"

definition scan_directory :: "filesystem \<Rightarrow> string \<Rightarrow> string list option \<Rightarrow> error + Finding list" where
  "scan_directory fs project_root target_files =
     (case target_files of
        Some (f # fl) \<Rightarrow> extend_all (map (scan_target fs project_root) (f # fl))
      | _ \<Rightarrow>
        (case resolve fs project_root of
           Some (Dir es) \<Rightarrow>
             extend_all (concat (map (scan_listing fs project_root) (os_walk project_root (Dir es))))
         | _ \<Rightarrow> Inr []))"

subsection \<open>\<open>print_findings\<close> and the verdict\<close>

definition SEVERITY_RANK :: "string \<rightharpoonup> int" where
  "SEVERITY_RANK = [''critical'' \<mapsto> 0, ''high'' \<mapsto> 1, ''medium'' \<mapsto> 2, ''low'' \<mapsto> 3]"

text \<open>\<open>SEVERITY_RANK.get(s, 3)\<close>.\<close>

definition rank :: "string \<Rightarrow> int" where
  "rank s = (case SEVERITY_RANK s of None \<Rightarrow> 3 | Some r \<Rightarrow> r)"

text \<open>The list \<open>filtered\<close> once sorted: the findings that are printed, in the order printed.
  \<open>list.sort\<close> is stable, as \<^const>\<open>sort_key\<close> is.\<close>

definition filtered :: "Finding list \<Rightarrow> string \<Rightarrow> Finding list" where
  "filtered findings min_severity =
     sort_key (\<lambda>f. rank (severity f))
       (filter (\<lambda>f. rank (severity f) \<le> rank min_severity) findings)"

definition print_findings :: "Finding list \<Rightarrow> string \<Rightarrow> int" where
  "print_findings findings min_severity = int (length (filtered findings min_severity))"

text \<open>The tally \<open>by_severity\<close> of \<open>main\<close> and \<open>by_severity.get(sev, 0)\<close>.\<close>

definition by_severity :: "Finding list \<Rightarrow> (string \<rightharpoonup> int)" where
  "by_severity findings =
     fold (\<lambda>f m. m(severity f \<mapsto> (case m (severity f) of None \<Rightarrow> 0 | Some c \<Rightarrow> c) + 1))
          findings Map.empty"

definition get0 :: "(string \<rightharpoonup> int) \<Rightarrow> string \<Rightarrow> int" where
  "get0 m k = (case m k of None \<Rightarrow> 0 | Some c \<Rightarrow> c)"

text \<open>The status that \<open>main\<close> passes to \<open>sys.exit\<close> once the scan is done.\<close>

definition verdict :: "Finding list \<Rightarrow> int" where
  "verdict findings = (if get0 (by_severity findings) ''critical'' > 0 then 1 else 0)"

subsection \<open>The command line\<close>

text \<open>
  The parser of \<open>main\<close>: the positional \<open>path\<close>, \<open>--severity\<close> with its four choices and the
  default \<open>low\<close>, \<open>--files\<close> with any number of names, and \<open>-h\<close>, \<open>--help\<close>, which \<open>argparse\<close>
  adds to every parser. \<open>parse_args\<close> returns the namespace, or it ends the process: with
  status 2 on a usage error, with status 0 once it has printed the help.
\<close>

record arguments =
  path :: string
  min_sev :: string
  files :: "string list option"

definition OPTIONS :: "string list" where
  "OPTIONS = [''-h'', ''--help'', ''--severity'', ''--files'']"

definition CHOICES :: "string list" where
  "CHOICES = [''critical'', ''high'', ''medium'', ''low'']"

text \<open>
  What \<open>argparse\<close> takes an argument string for. An option may carry its argument after
  \<open>=\<close>. The help option takes no argument: \<open>Help_option\<close> holds the status with which taking
  it ends, 0, or 2 when it came with an argument.
\<close>

datatype kind =
    Positional
  | Separator
  | Unknown
  | Ambiguous
  | Help_option int
  | Severity_option "string option"
  | Files_option "string option"

definition option_kind :: "string \<Rightarrow> string option \<Rightarrow> kind" where
  "option_kind opt explicit =
     (if opt = ''--severity'' then Severity_option explicit
      else if opt = ''--files'' then Files_option explicit
      else Help_option (case explicit of None \<Rightarrow> 0 | Some x \<Rightarrow> 2))"

text \<open>Characters that follow \<open>-h\<close> in one argument string: more \<open>h\<close>s repeat the option, a
  dash or an \<open>=\<close> after them is an error, and anything else is left as an unknown argument,
  after which the help is printed.\<close>

fun h_tail :: "string \<Rightarrow> int" where
  "h_tail [] = 0"
| "h_tail (c # cs) =
     (if c = CHR ''-'' then 2
      else if c = CHR ''h'' then (if startswith cs ''='' then 2 else h_tail cs)
      else 0)"

text \<open>The pattern \<open>^-\d+$|^-\d*\.\d+$\<close> by which \<open>argparse\<close> knows a negative number; \<open>$\<close> also
  matches before a newline that ends the string.\<close>

definition isdigit :: "char \<Rightarrow> bool" where
  "isdigit c = in_range 0x30 0x39 c"

definition negative_number :: "string \<Rightarrow> bool" where
  "negative_number a =
     (case a of
        [] \<Rightarrow> False
      | c # cs \<Rightarrow>
          c = CHR ''-'' \<and>
          (let body = (if cs \<noteq> [] \<and> last cs = newline then butlast cs else cs);
               rest = dropWhile isdigit body
           in (body \<noteq> [] \<and> rest = [])
              \<or> (case rest of
                    [] \<Rightarrow> False
                  | d # ds \<Rightarrow> d = CHR ''.'' \<and> ds \<noteq> [] \<and> list_all isdigit ds)))"

text \<open>\<open>_parse_optional\<close>: an argument string is a positional argument or an option. A
  long option may be abbreviated to a prefix that fits one option only.\<close>

definition classify :: "string \<Rightarrow> kind" where
  "classify a =
     (if a = [] \<or> hd a \<noteq> CHR ''-'' then Positional
      else if a \<in> set OPTIONS then option_kind a None
      else if length a = 1 then Positional
      else
        let opt = takeWhile (\<lambda>c. c \<noteq> CHR ''='') a;
            explicit = (if CHR ''='' \<in> set a
                        then Some (tl (dropWhile (\<lambda>c. c \<noteq> CHR ''='') a)) else None)
        in if explicit \<noteq> None \<and> opt \<in> set OPTIONS then option_kind opt explicit
           else
             let matches =
                   (if a ! 1 = CHR ''-''
                    then map (\<lambda>s. option_kind s explicit) (filter (\<lambda>s. startswith s opt) OPTIONS)
                    else if take 2 a = ''-h'' then [Help_option (h_tail (drop 2 a))]
                    else [])
             in if length matches > 1 then Ambiguous
                else if length matches = 1 then hd matches
                else if negative_number a \<or> CHR '' '' \<in> set a then Positional
                else Unknown)"

text \<open>Every argument string after the first \<open>--\<close> is a positional argument.\<close>

fun kinds :: "bool \<Rightarrow> string list \<Rightarrow> kind list" where
  "kinds seen [] = []"
| "kinds seen (a # as) =
     (if seen then Positional # kinds True as
      else if a = ''--'' then Separator # kinds True as
      else classify a # kinds False as)"

text \<open>
  The loop of \<open>_parse_known_args\<close> over the argument strings, from left to right, with the
  values found so far. The first positional argument is the path, with a \<open>--\<close> beside it;
  \<open>--severity\<close> takes one argument, which must be among the choices; \<open>--files\<close> takes the
  positional arguments that follow it; whatever nothing takes is kept for the error
  \<open>unrecognized arguments\<close> at the end, after the test that the path was given.
\<close>

fun is_positional :: "string \<times> kind \<Rightarrow> bool" where
  "is_positional (a, k) = (k = Positional)"

definition drop_separator :: "(string \<times> kind) list \<Rightarrow> (string \<times> kind) list" where
  "drop_separator items = drop (case items of (a, Separator) # rest \<Rightarrow> 1 | _ \<Rightarrow> 0) items"

function consume ::
  "(string \<times> kind) list \<Rightarrow> string option \<Rightarrow> string \<Rightarrow> string list option \<Rightarrow> bool \<Rightarrow> int + arguments"
where
  "consume [] p sev fl extras =
     (case p of
        None \<Rightarrow> Inl 2
      | Some given \<Rightarrow> if extras then Inl 2 else Inr \<lparr>path = given, min_sev = sev, files = fl\<rparr>)"
| "consume ((a, Unknown) # rest) p sev fl extras = consume rest p sev fl True"
| "consume ((a, Ambiguous) # rest) p sev fl extras = Inl 2"
| "consume ((a, Help_option status) # rest) p sev fl extras = Inl status"
| "consume ((a, Severity_option (Some v)) # rest) p sev fl extras =
     (if v \<in> set CHOICES then consume rest p v fl extras else Inl 2)"
| "consume ((a, Severity_option None) # rest) p sev fl extras =
     (case rest of
        (v, Positional) # rest' \<Rightarrow> if v \<in> set CHOICES then consume rest' p v fl extras else Inl 2
      | _ \<Rightarrow> Inl 2)"
| "consume ((a, Files_option (Some v)) # rest) p sev fl extras = consume rest p sev (Some [v]) extras"
| "consume ((a, Files_option None) # rest) p sev fl extras =
     consume (dropWhile is_positional rest) p sev (Some (map fst (takeWhile is_positional rest))) extras"
| "consume ((a, Positional) # rest) p sev fl extras =
     (case p of
        None \<Rightarrow> consume (drop_separator rest) (Some a) sev fl extras
      | Some given \<Rightarrow> consume rest p sev fl True)"
| "consume ((a, Separator) # rest) p sev fl extras =
     (case (p, rest) of
        (None, (v, Positional) # rest') \<Rightarrow> consume (drop_separator rest') (Some v) sev fl extras
      | _ \<Rightarrow> consume rest p sev fl True)"
  by pat_completeness auto

termination
  by (relation "measure (\<lambda>(items, p, sev, fl, extras). length items)")
     (auto simp: drop_separator_def intro: le_imp_less_Suc length_dropWhile_le)

text \<open>\<open>parser.parse_args()\<close> for the arguments of the command line, \<open>sys.argv[1:]\<close>: an
  abbreviation that fits several options ends the parse before any argument is taken.\<close>

definition parse_args :: "string list \<Rightarrow> int + arguments" where
  "parse_args argv =
     (let ks = kinds False argv
      in if Ambiguous \<in> set ks then Inl 2 else consume (zip argv ks) None ''low'' None False)"

subsection \<open>\<open>main\<close>\<close>

text \<open>
  An invocation ends in one of four ways: \<open>parse_args\<close> ends it, the root is not a directory
  (status 1, nothing scanned), an exception escapes (status 1), or the scan completes and
  the status is the verdict. \<open>main_with\<close> is \<open>main\<close> from the line after \<open>parse_args\<close> on, for the
  namespace \<open>args\<close>.
\<close>

datatype outcome =
    Parser_exit int
  | Directory_not_found
  | Raised error
  | Completed int "Finding list" "Finding list"

fun exit_status :: "outcome \<Rightarrow> int" where
  "exit_status (Parser_exit status) = status"
| "exit_status Directory_not_found = 1"
| "exit_status (Raised e) = 1"
| "exit_status (Completed status findings shown) = status"

definition main_with :: "filesystem \<Rightarrow> arguments \<Rightarrow> outcome" where
  "main_with fs a =
     (let project_root = abspath fs (path a) in
      if \<not> isdir fs project_root then Directory_not_found
      else case scan_directory fs project_root (files a) of
             Inl e \<Rightarrow> Raised e
           | Inr findings \<Rightarrow>
               Completed (verdict findings) findings (filtered findings (min_sev a)))"

definition main :: "filesystem \<Rightarrow> string list \<Rightarrow> outcome" where
  "main fs argv =
     (case parse_args argv of
        Inl status \<Rightarrow> Parser_exit status
      | Inr a \<Rightarrow> main_with fs a)"

subsection \<open>The order of discovery, in the specification's words\<close>

text \<open>
  The files a scan reads, in the order in which \<open>scan_directory\<close> comes to them, each with
  its path and with what opening it gives: the existing files of the subset, or else the
  files with a source extension of every directory that \<open>os.walk\<close> yields.
\<close>

definition listed_files :: "listing \<Rightarrow> (string \<times> (error + string list)) list" where
  "listed_files l =
     (case l of (root, dirs, entries) \<Rightarrow>
        map (\<lambda>(filename, opened). (os_path_join root filename, opened))
            (filter (\<lambda>(filename, opened). path_suffix filename \<in> SOURCE_EXTENSIONS) entries))"

definition traversal :: "filesystem \<Rightarrow> string \<Rightarrow> string list option \<Rightarrow> (string \<times> (error + string list)) list" where
  "traversal fs project_root target_files =
     (case target_files of
        Some (f # fl) \<Rightarrow>
          concat (map (\<lambda>fpath. let abs_path = abs_path_of project_root fpath
                               in if isfile fs abs_path then [(abs_path, open_readlines fs abs_path)] else [])
                      (f # fl))
      | _ \<Rightarrow>
        (case resolve fs project_root of
           Some (Dir es) \<Rightarrow> concat (map listed_files (os_walk project_root (Dir es)))
         | _ \<Rightarrow> []))"

text \<open>The path that a finding of the file at \<open>filepath\<close> carries; a path that is not empty
  always has one.\<close>

definition rel_path_of :: "filesystem \<Rightarrow> string \<Rightarrow> string \<Rightarrow> string" where
  "rel_path_of fs filepath project_root =
     (case relpath fs filepath project_root of Inl e \<Rightarrow> [] | Inr r \<Rightarrow> r)"



subsection \<open>Pruned directories\<close>

text \<open>A tree with every directory named in \<open>SKIP_DIRS\<close> emptied, at any depth.\<close>

fun emptied :: "node \<Rightarrow> node" where
  "emptied (File c) = File c"
| "emptied (Dir es) =
     Dir (map (\<lambda>(n, sub). (n, if is_dir sub \<and> n \<in> SKIP_DIRS then Dir [] else emptied sub)) es)"

subsection \<open>A small project\<close>

text \<open>
  The tree used for the concrete runs below: a project \<open>/p\<close> with a source file that holds
  a hardcoded password, a text file with the same line, a source file that cannot be read,
  a dependency cache, and a source directory whose only file holds the line as a comment.
  \<open>text_file s\<close> is a file whose bytes encode the text \<open>s\<close>.
\<close>

abbreviation text_file :: "string \<Rightarrow> node" where
  "text_file s \<equiv> File (Some (map Valid s))"

definition pw_line :: string where
  "pw_line = ''password = \"abc123\"'' @ [newline]"

definition commented_line :: string where
  "commented_line = ''// password = \"abc123\"'' @ [newline]"

abbreviation password_finding :: "string \<Rightarrow> int \<Rightarrow> Finding" where
  "password_finding rel n \<equiv>
     \<lparr>severity = ''critical'', category = ''Hardcoded Secret'', file = rel, line = n,
      message = ''Hardcoded password detected'', snippet = ''password = \"abc123\"''\<rparr>"

definition project :: "(string \<times> node) list" where
  "project =
     [(''a.py'', text_file pw_line),
      (''notes.txt'', text_file pw_line),
      (''locked.py'', File None),
      (''node_modules'', Dir [(''m.js'', text_file pw_line)]),
      (''src'', Dir [(''b.js'', text_file commented_line)])]"

definition demo_fs :: filesystem where
  "demo_fs = \<lparr>tree = Dir [(''p'', Dir project)], cwd = ''/''\<rparr>"



text \<open>The first file system with something added outside the project.\<close>

definition grown_fs :: filesystem where
  "grown_fs = \<lparr>tree = Dir [(''p'', Dir project), (''tmp'', Dir [(''x.py'', text_file pw_line)])],
                cwd = ''/''\<rparr>"

text \<open>
  A project whose only file holds the password line between bytes that are not UTF-8: a
  lone \<open>0xFF\<close> before it, and after it a \<open>0xC3\<close> that nothing continues.
\<close>

definition garbled :: "encoded list" where
  "garbled = Invalid (CHR 0xFF) # map Valid pw_line @ [Invalid (CHR 0xC3)]"

definition garbled_fs :: filesystem where
  "garbled_fs = \<lparr>tree = Dir [(''p'', Dir [(''g.py'', File (Some garbled))])], cwd = ''/''\<rparr>"

section \<open>Properties\<close>

subsection \<open>Evaluation of characters and patterns\<close>

lemmas char_defs = lower_def upper_def in_range_def code_def isspace_def isword_def char_of_eq_iff
lemmas regex_defs = re_search_def Cat_def Str_def Plus_def in_class_def class_matches_def

subsection \<open>Lines\<close>

lemma scan_line_comment: "is_comment (strip ln) \<Longrightarrow> scan_line rel n ln = []"
  by (simp add: scan_line_def Let_def)

lemma scan_line_code:
  "\<not> is_comment (strip ln) \<Longrightarrow>
     scan_line rel n ln = map (finding_of rel n (strip ln)) (matching_rules (strip ln))"
  by (simp add: scan_line_def Let_def)

lemma scan_line_fields:
  assumes "f \<in> set (scan_line rel n ln)"
  shows "file f = rel" and "line f = n" and "snippet f = take 120 (strip ln)"
    and "\<not> is_comment (strip ln)"
  using assms by (auto simp: scan_line_def Let_def finding_of_def split: if_splits prod.splits)

lemma enumerate_eq: "enumerate_from n xs = map (\<lambda>i. (n + int i, xs ! i)) [0..<length xs]"
proof (induction xs arbitrary: n)
  case Nil
  show ?case by simp
next
  case (Cons x xs)
  have "map (\<lambda>i. (n + int i, (x # xs) ! i)) [0..<length (x # xs)]
        = (n, x) # map (\<lambda>i. (n + int (Suc i), xs ! i)) [0..<length xs]"
    by (simp add: upt_conv_Cons map_Suc_upt [symmetric] del: upt_Suc)
  also have "\<dots> = (n, x) # enumerate_from (n + 1) xs"
    by (simp add: Cons.IH add.assoc add.commute)
  finally show ?case by simp
qed

lemma enumerate_append:
  "enumerate_from n (xs @ ys) = enumerate_from n xs @ enumerate_from (n + int (length xs)) ys"
  by (induction xs arbitrary: n) (simp_all add: add.assoc)

lemma scan_lines_Nil: "scan_lines rel [] = []"
  by (simp add: scan_lines_def)

lemma scan_lines_mem:
  "f \<in> set (scan_lines rel lines) \<longleftrightarrow>
     (\<exists>i<length lines. f \<in> set (scan_line rel (1 + int i) (lines ! i)))"
  by (auto simp: scan_lines_def enumerate_eq)

lemma rule1_matches_password: "re_search (fst (hd PATTERNS)) ''password = \"abc123\"''"
  by (simp add: PATTERNS_def regex_defs char_defs)

lemma strip_password: "strip ''password = \"abc123\"'' = ''password = \"abc123\"''"
  by (simp add: strip_def char_defs)

lemma strip_commented: "strip ''// password = \"abc123\"'' = ''// password = \"abc123\"''"
  by (simp add: strip_def char_defs)

lemma matching_rules_first:
  "re_search (fst (hd PATTERNS)) s \<Longrightarrow> matching_rules s = hd PATTERNS # filter (\<lambda>(pattern, sev, cat, msg). re_search pattern s) (tl PATTERNS)"
  by (simp add: matching_rules_def PATTERNS_def)

subsection \<open>Paths are never empty where a file is scanned\<close>

lemma startswith_Nil [simp]: "\<not> startswith [] ''/''"
  by (simp add: startswith_def)

lemma os_path_join_nonempty: "a \<noteq> [] \<Longrightarrow> os_path_join a b \<noteq> []"
  by (auto simp: os_path_join_def)

lemma resolve_nonempty: "resolve fs p = Some n \<Longrightarrow> p \<noteq> []"
  by (auto simp: resolve_def)

lemma isfile_nonempty: "isfile fs p \<Longrightarrow> p \<noteq> []"
  by (auto simp: isfile_def resolve_def)

lemma isdir_nonempty: "isdir fs p \<Longrightarrow> p \<noteq> []"
  by (auto simp: isdir_def resolve_def)

lemma relpath_Inr: "p \<noteq> [] \<Longrightarrow> \<exists>r. relpath fs p start = Inr r"
  by (simp add: relpath_def Let_def)


lemma os_walk_dirpath_nonempty:
  "l \<in> set (os_walk d t) \<Longrightarrow> d \<noteq> [] \<Longrightarrow> fst l \<noteq> []"
proof (induction d t arbitrary: l rule: os_walk.induct)
  case (1 dirpath c)
  then show ?case by simp
next
  case (2 dirpath es)
  from "2.prems" show ?case
    by (auto simp: os_path_join_nonempty split: if_splits dest!: "2.IH" )
qed

lemma extend_all_Inr:
  "\<forall>r\<in>set rs. \<exists>x. r = Inr x \<Longrightarrow> extend_all rs = Inr (concat (map projr rs))"
  by (induction rs rule: extend_all.induct) auto


subsection \<open>Reading with \<open>errors="ignore"\<close> raises nothing but \<open>OSError\<close>\<close>

lemma decode_Valid: "decode h (map Valid s) = Inr s"
  by (induction s) simp_all

lemma decode_Ignore: "decode Ignore bs = Inr [c. Valid c \<leftarrow> bs]"
proof (induction bs)
  case Nil
  show ?case by simp
next
  case (Cons b bs)
  then show ?case by (cases b) simp_all
qed

lemma decode_Strict:
  "decode Strict bs = (if \<exists>b. Invalid b \<in> set bs then Inl UnicodeDecodeError else Inr [c. Valid c \<leftarrow> bs])"
proof (induction bs)
  case Nil
  show ?case by simp
next
  case (Cons b bs)
  then show ?case by (cases b) auto
qed

lemma readlines_Ignore:
  "readlines Ignore bs = Inr (split_lines (universal_newlines False [c. Valid c \<leftarrow> bs]))"
  by (simp add: readlines_def decode_Ignore)

lemma read_content_caught: "read_content c = Inl e \<Longrightarrow> e = OSError"
  by (cases c) (simp_all add: read_content_def readlines_Ignore)

lemma open_readlines_caught: "open_readlines fs p = Inl e \<Longrightarrow> e = OSError"
  by (auto simp: open_readlines_def dest: read_content_caught split: option.splits node.splits)

lemma nondirs_caught: "(n, opened) \<in> set (nondirs es) \<Longrightarrow> opened = Inl e \<Longrightarrow> e = OSError"
  by (induction es rule: nondirs.induct) (auto dest: read_content_caught [OF sym])

lemma os_walk_caught:
  "(r, ds, entries) \<in> set (os_walk d t) \<Longrightarrow> (n, opened) \<in> set entries \<Longrightarrow> opened = Inl e
     \<Longrightarrow> e = OSError"
proof (induction d t rule: os_walk.induct)
  case (1 dirpath c)
  then show ?case by simp
next
  case (2 dirpath es)
  from "2.prems" show ?case
    by (auto split: if_splits dest: "2.IH" nondirs_caught)
qed

subsection \<open>What \<open>scan_directory\<close> returns\<close>

lemma scan_file_of_eq:
  assumes "p \<noteq> []" and "\<And>e. opened = Inl e \<Longrightarrow> e = OSError"
  shows "scan_file_of fs opened p root = Inr (scan_opened (rel_path_of fs p root) opened)"
  using assms
  by (cases opened) (auto simp: scan_file_of_def rel_path_of_def relpath_def Let_def scan_opened_def)

lemma scan_listing_eq:
  assumes "fst l \<noteq> []"
    and "\<And>n opened e. (n, opened) \<in> set (snd (snd l)) \<Longrightarrow> opened = Inl e \<Longrightarrow> e = OSError"
  shows "scan_listing fs root l =
           map (\<lambda>(p, opened). Inr (scan_opened (rel_path_of fs p root) opened)) (listed_files l)"
proof -
  obtain r ds fls where l: "l = (r, ds, fls)" by (cases l)
  with assms have "r \<noteq> []" by simp
  then have j: "\<And>n. os_path_join r n \<noteq> []" by (rule os_path_join_nonempty)
  have "scan_file_of fs opened (os_path_join r n) root =
          Inr (scan_opened (rel_path_of fs (os_path_join r n) root) opened)"
    if "(n, opened) \<in> set fls" for n opened
    using j assms(2) that unfolding l by (intro scan_file_of_eq) auto
  then show ?thesis
    by (auto simp: l scan_listing_def listed_files_def comp_def case_prod_unfold)
qed

lemma extend_all_concat_Inr:
  "extend_all (map (\<lambda>x. Inr (g x)) xs) = Inr (concat (map g xs))"
  by (induction xs) auto

lemma scan_target_eq:
  "scan_target fs root fpath =
     Inr (concat (map (\<lambda>(p, opened). scan_opened (rel_path_of fs p root) opened)
            (let abs_path = abs_path_of root fpath
             in if isfile fs abs_path then [(abs_path, open_readlines fs abs_path)] else [])))"
  by (auto simp: scan_target_def Let_def scan_file_def
        intro!: scan_file_of_eq dest: isfile_nonempty open_readlines_caught)

lemma scan_listings_eq:
  "\<forall>l\<in>set ls. fst l \<noteq> []
       \<and> (\<forall>n opened e. (n, opened) \<in> set (snd (snd l)) \<longrightarrow> opened = Inl e \<longrightarrow> e = OSError) \<Longrightarrow>
     concat (map (scan_listing fs root) ls) =
       map (\<lambda>(p, opened). Inr (scan_opened (rel_path_of fs p root) opened))
           (concat (map listed_files ls))"
  by (induction ls) (simp_all add: scan_listing_eq)

lemma scan_walk_eq:
  assumes "root \<noteq> []"
  shows "extend_all (concat (map (scan_listing fs root) (os_walk root t))) =
         Inr (concat (map (\<lambda>(p, opened). scan_opened (rel_path_of fs p root) opened)
                (concat (map listed_files (os_walk root t)))))"
proof -
  have "fst l \<noteq> []" if "l \<in> set (os_walk root t)" for l
    using assms that by (rule os_walk_dirpath_nonempty [rotated])
  moreover have "e = OSError"
    if "l \<in> set (os_walk root t)" "(n, opened) \<in> set (snd (snd l))" "opened = Inl e" for l n opened e
  proof -
    obtain r ds entries where l: "l = (r, ds, entries)" by (cases l)
    with that have "(r, ds, entries) \<in> set (os_walk root t)" "(n, opened) \<in> set entries"
      by simp_all
    then show ?thesis using that(3) by (rule os_walk_caught)
  qed
  ultimately have "\<forall>l\<in>set (os_walk root t). fst l \<noteq> []
       \<and> (\<forall>n opened e. (n, opened) \<in> set (snd (snd l)) \<longrightarrow> opened = Inl e \<longrightarrow> e = OSError)"
    by blast
  then show ?thesis
    by (simp add: scan_listings_eq extend_all_concat_Inr case_prod_unfold)
qed

lemma scan_targets_eq:
  "extend_all (map (scan_target fs root) xs) =
     Inr (concat (map (\<lambda>(p, opened). scan_opened (rel_path_of fs p root) opened)
            (concat (map (\<lambda>fpath. let abs_path = abs_path_of root fpath
                               in if isfile fs abs_path then [(abs_path, open_readlines fs abs_path)] else [])
                      xs))))"
  by (induction xs) (simp_all add: scan_target_eq Let_def)

lemma scan_directory_eq:
  "scan_directory fs root tf =
     Inr (concat (map (\<lambda>(p, opened). scan_opened (rel_path_of fs p root) opened) (traversal fs root tf)))"
proof (cases "\<exists>f fl. tf = Some (f # fl)")
  case True
  then obtain f fl where tf: "tf = Some (f # fl)" by blast
  show ?thesis
    unfolding tf scan_directory_def traversal_def
    by (simp only: option.case list.case scan_targets_eq)
next
  case False
  then have tf: "(case tf of Some (f # fl) \<Rightarrow> a f fl | _ \<Rightarrow> b) = b" for a :: "string \<Rightarrow> string list \<Rightarrow> 'x" and b
    by (cases tf; simp split: list.splits)
  show ?thesis
  proof (cases "resolve fs root")
    case None
    then show ?thesis by (simp add: scan_directory_def traversal_def tf)
  next
    case (Some t)
    then have "root \<noteq> []" by (rule resolve_nonempty)
    then show ?thesis using Some
      by (cases t) (simp_all add: scan_directory_def traversal_def tf scan_walk_eq del: os_walk.simps)
  qed
qed

subsection \<open>Comment lines and snippets\<close>

lemma not_comment_password: "\<not> is_comment ''password = \"abc123\"''"
  by (simp add: is_comment_def startswith_def)

lemma is_comment_commented: "is_comment ''// password = \"abc123\"''"
  by (simp add: is_comment_def startswith_def)

lemma scan_line_password:
  assumes "strip ln = ''password = \"abc123\"''"
  shows "scan_line rel n ln =
     \<lparr>severity = ''critical'', category = ''Hardcoded Secret'', file = rel, line = n,
      message = ''Hardcoded password detected'', snippet = ''password = \"abc123\"''\<rparr>
     # map (finding_of rel n ''password = \"abc123\"'')
           (filter (\<lambda>(pattern, sev, cat, msg). re_search pattern ''password = \"abc123\"'') (tl PATTERNS))"
proof -
  have "finding_of rel n ''password = \"abc123\"'' (hd PATTERNS) =
        \<lparr>severity = ''critical'', category = ''Hardcoded Secret'', file = rel, line = n,
         message = ''Hardcoded password detected'', snippet = ''password = \"abc123\"''\<rparr>"
    by (simp add: PATTERNS_def finding_of_def)
  then show ?thesis
    using matching_rules_first [OF rule1_matches_password]
    by (simp add: scan_line_code assms not_comment_password)
qed

lemma strip_pw_line: "strip pw_line = ''password = \"abc123\"''"
  by (simp add: pw_line_def strip_def char_defs)

text \<open>
  C3: a line whose stripped content starts with \<open>//\<close>, \<open>#\<close> or \<open>*\<close> produces no findings,
  and no finding of a file carries the number of such a line; the line
  \<open>password = "abc123"\<close> yields a finding of severity \<open>critical\<close> and category
  \<open>Hardcoded Secret\<close>, and the same text after \<open>// \<close> yields none.
\<close>

theorem comment_lines_yield_no_findings:
  "(startswith (strip ln) ''//'' \<or> startswith (strip ln) ''#'' \<or> startswith (strip ln) ''*''
      \<longrightarrow> scan_line rel n ln = [])
   \<and> (i < length lines \<and> is_comment (strip (lines ! i))
      \<longrightarrow> (\<forall>f\<in>set (scan_lines rel lines). line f \<noteq> 1 + int i))
   \<and> (\<exists>f\<in>set (scan_line rel n ''password = \"abc123\"'').
         severity f = ''critical'' \<and> category f = ''Hardcoded Secret'')
   \<and> scan_line rel n ''// password = \"abc123\"'' = []"
proof (intro conjI impI)
  assume "startswith (strip ln) ''//'' \<or> startswith (strip ln) ''#'' \<or> startswith (strip ln) ''*''"
  then have "is_comment (strip ln)" by (simp add: is_comment_def)
  then show "scan_line rel n ln = []" by (rule scan_line_comment)
next
  assume a: "i < length lines \<and> is_comment (strip (lines ! i))"
  show "\<forall>f\<in>set (scan_lines rel lines). line f \<noteq> 1 + int i"
  proof
    fix f assume "f \<in> set (scan_lines rel lines)"
    then obtain j where j: "j < length lines" "f \<in> set (scan_line rel (1 + int j) (lines ! j))"
      by (auto simp: scan_lines_mem)
    from j(2) have "line f = 1 + int j" "\<not> is_comment (strip (lines ! j))"
      by (rule scan_line_fields)+
    with a show "line f \<noteq> 1 + int i" by auto
  qed
next
  show "\<exists>f\<in>set (scan_line rel n ''password = \"abc123\"'').
          severity f = ''critical'' \<and> category f = ''Hardcoded Secret''"
    by (subst scan_line_password [OF strip_password]) simp
next
  show "scan_line rel n ''// password = \"abc123\"'' = []"
    by (rule scan_line_comment) (simp add: strip_commented is_comment_commented)
qed

theorem comment_lines_yield_no_findings_witness:
  "startswith (strip ''  # password = 1'') ''#'' \<and> scan_line ''a.py'' 1 ''  # password = 1'' = []
   \<and> (0::nat) < length [''* x'', ''y''] \<and> is_comment (strip ([''* x'', ''y''] ! 0))
   \<and> \<not> (\<exists>f\<in>set (scan_lines ''a.py'' [''* x'', ''y'']). line f = 1 + int 0)"
proof -
  have s: "strip ''  # password = 1'' = ''# password = 1''"
    by (simp add: strip_def char_defs)
  have s': "strip ''* x'' = ''* x''"
    by (simp add: strip_def char_defs)
  have h1: "startswith (strip ''  # password = 1'') ''#''"
    by (simp add: s startswith_def)
  have h2: "(0::nat) < length [''* x'', ''y''] \<and> is_comment (strip ([''* x'', ''y''] ! 0))"
    by (simp add: s' is_comment_def startswith_def)
  from comment_lines_yield_no_findings
         [where ln = "''  # password = 1''" and rel = "''a.py''" and n = 1 and i = 0
            and lines = "[''* x'', ''y'']"] h1 h2
  show ?thesis by blast
qed

text \<open>
  C9: the snippet of a finding is the stripped content of its line cut to 120 characters:
  it is never longer than 120, it is a prefix of the content, and it is the whole content
  when that has at most 120 characters. A line of 500 characters is one case.
\<close>

theorem snippet_is_line_cut_to_120:
  assumes "f \<in> set (scan_lines rel lines)"
  shows "\<exists>i<length lines. line f = 1 + int i
           \<and> snippet f = take 120 (strip (lines ! i))
           \<and> length (snippet f) \<le> 120
           \<and> prefix (snippet f) (strip (lines ! i))
           \<and> (length (strip (lines ! i)) \<le> 120 \<longrightarrow> snippet f = strip (lines ! i))
           \<and> (length (lines ! i) = 500 \<longrightarrow> length (snippet f) \<le> 120)"
proof -
  from assms obtain i where i: "i < length lines" "f \<in> set (scan_line rel (1 + int i) (lines ! i))"
    by (auto simp: scan_lines_mem)
  from i(2) have "line f = 1 + int i" "snippet f = take 120 (strip (lines ! i))"
    by (rule scan_line_fields)+
  with i(1) show ?thesis
    by (auto simp: take_is_prefix)
qed

theorem snippet_is_line_cut_to_120_witness:
  "\<lparr>severity = ''critical'', category = ''Hardcoded Secret'', file = ''a.py'', line = 1,
      message = ''Hardcoded password detected'', snippet = ''password = \"abc123\"''\<rparr>
     \<in> set (scan_lines ''a.py'' [''password = \"abc123\"''])
   \<and> (\<exists>i<length [''password = \"abc123\"'']. 
         snippet \<lparr>severity = ''critical'', category = ''Hardcoded Secret'', file = ''a.py'', line = 1,
      message = ''Hardcoded password detected'', snippet = ''password = \"abc123\"''\<rparr>
           = take 120 (strip ([''password = \"abc123\"''] ! i)))"
proof -
  have m: "\<lparr>severity = ''critical'', category = ''Hardcoded Secret'', file = ''a.py'', line = 1,
      message = ''Hardcoded password detected'', snippet = ''password = \"abc123\"''\<rparr>
     \<in> set (scan_lines ''a.py'' [''password = \"abc123\"''])"
    by (simp add: scan_lines_def scan_line_password [OF strip_password])
  from snippet_is_line_cut_to_120 [OF m] m show ?thesis by blast
qed

subsection \<open>The tally and the displayed findings\<close>

lemma tally_fold:
  assumes step: "\<And>f m. step f m = m(severity f \<mapsto> get0 m (severity f) + 1)"
  shows "get0 (fold step findings m) s =
           get0 m s + int (length (filter (\<lambda>f. severity f = s) findings))"
proof (induction findings arbitrary: m)
  case Nil
  show ?case by simp
next
  case (Cons f findings)
  have "get0 (step f m) s = get0 m s + (if severity f = s then 1 else 0)"
    by (simp add: step get0_def)
  then show ?case
    by (simp add: Cons.IH)
qed

lemma by_severity_count:
  "get0 (by_severity findings) s = int (length (filter (\<lambda>f. severity f = s) findings))"
proof -
  have "get0 (by_severity findings) s =
          get0 Map.empty s + int (length (filter (\<lambda>f. severity f = s) findings))"
    unfolding by_severity_def by (rule tally_fold) (simp add: get0_def)
  then show ?thesis by (simp add: get0_def)
qed

lemma verdict_iff: "verdict findings \<noteq> 0 \<longleftrightarrow> (\<exists>f\<in>set findings. severity f = ''critical'')"
  by (auto simp: verdict_def by_severity_count filter_empty_conv)

lemma verdict_values: "verdict findings = 0 \<or> verdict findings = 1"
  by (simp add: verdict_def)

lemma main_completed:
  assumes "isdir fs (abspath fs (path a))"
  shows "\<exists>findings. scan_directory fs (abspath fs (path a)) (files a) = Inr findings
           \<and> main_with fs a = Completed (verdict findings) findings (filtered findings (min_sev a))"
  using assms by (simp add: main_with_def Let_def scan_directory_eq)

lemma main_parsed: "parse_args argv = Inr a \<Longrightarrow> main fs argv = main_with fs a"
  by (simp add: main_def)

lemma main_rejected: "parse_args argv = Inl status \<Longrightarrow> main fs argv = Parser_exit status"
  by (simp add: main_def)

lemma set_filtered:
  "set (filtered findings s) = {f \<in> set findings. rank (severity f) \<le> rank s}"
  by (auto simp: filtered_def)

lemma mset_filtered:
  "mset (filtered findings s) = filter_mset (\<lambda>f. rank (severity f) \<le> rank s) (mset findings)"
  by (simp add: filtered_def)

subsection \<open>The small project, evaluated\<close>

lemma split_sep_p: "split_sep ''/p'' = ['''', ''p'']"
  by simp

lemmas parse_defs = parse_args_def classify_def OPTIONS_def CHOICES_def option_kind_def
  drop_separator_def startswith_def

lemma parse_demo:
  "parse_args [''/p''] = Inr \<lparr>path = ''/p'', min_sev = ''low'', files = None\<rparr>"
  "parse_args [''/p'', ''--severity'', ''critical'']
     = Inr \<lparr>path = ''/p'', min_sev = ''critical'', files = None\<rparr>"
  "parse_args [''/p'', ''--severity'', ''high'']
     = Inr \<lparr>path = ''/p'', min_sev = ''high'', files = None\<rparr>"
  "parse_args [''/p'', ''--files''] = Inr \<lparr>path = ''/p'', min_sev = ''low'', files = Some []\<rparr>"
  "parse_args [''/p'', ''--severity'', ''bogus''] = Inl 2"
  "parse_args [] = Inl 2"
  "parse_args [''-h''] = Inl 0"
  by (simp_all add: parse_defs)

lemma abspath_demo_root: "abspath demo_fs ''/p'' = ''/p''"
  by (simp add: abspath_def isabs_def startswith_def normpath_def Let_def)

lemma resolve_demo_root: "resolve demo_fs ''/p'' = Some (Dir project)"
  by (simp add: resolve_def isabs_def startswith_def demo_fs_def)

lemma isdir_demo_root: "isdir demo_fs ''/p''"
  by (simp add: isdir_def resolve_demo_root)


lemma read_demo:
  "read_content (Some (map Valid pw_line)) = Inr [pw_line]"
  "read_content (Some (map Valid commented_line)) = Inr [commented_line]"
  "read_content None = Inl OSError"
  by (simp_all add: read_content_def readlines_def decode_Valid)
     (simp_all add: pw_line_def commented_line_def)

lemma os_walk_demo:
  "os_walk ''/p'' (Dir project) =
     [(''/p'', [''src''], [(''a.py'', Inr [pw_line]), (''notes.txt'', Inr [pw_line]), (''locked.py'', Inl OSError)]),
      (''/p/src'', [], [(''b.js'', Inr [commented_line])])]"
  by (simp add: project_def SKIP_DIRS_def os_path_join_def startswith_def read_demo)

lemma listed_demo:
  "concat (map listed_files (os_walk ''/p'' (Dir project))) =
     [(''/p/a.py'', Inr [pw_line]), (''/p/locked.py'', Inl OSError),
      (''/p/src/b.js'', Inr [commented_line])]"
  unfolding os_walk_demo
  by (simp add: listed_files_def path_suffix_def SOURCE_EXTENSIONS_def
        os_path_join_def startswith_def)

lemma rel_path_demo_a: "rel_path_of demo_fs ''/p/a.py'' ''/p'' = ''a.py''"
  by (simp add: rel_path_of_def relpath_def abspath_def isabs_def startswith_def normpath_def Let_def)

lemma scan_demo_walk:
  assumes "tf = None \<or> tf = Some []"
  shows "\<exists>rest. scan_directory demo_fs ''/p'' tf = Inr (password_finding ''a.py'' 1 # rest)"
proof -
  have "traversal demo_fs ''/p'' tf = concat (map listed_files (os_walk ''/p'' (Dir project)))"
    using assms by (auto simp: traversal_def resolve_demo_root simp del: os_walk.simps)
  then show ?thesis
    unfolding scan_directory_eq listed_demo
    by (simp add: scan_opened_def scan_lines_def rel_path_demo_a
          scan_line_password [OF strip_pw_line])
qed

subsection \<open>The verdict and the display floor\<close>

text \<open>
  C1: when the root is a directory the scan runs to its end, and the exit status is nonzero
  exactly when the full list that \<open>scan_directory\<close> returned holds a finding of severity
  \<open>critical\<close>; the status is the same for every display floor. This holds of \<open>main\<close> from
  the namespace on, whatever the namespace, and so of \<open>main\<close> on every command line that
  \<open>parse_args\<close> accepts.
\<close>

theorem exit_status_nonzero_iff_critical_finding:
  assumes "isdir fs (abspath fs (path a))"
  shows "\<exists>findings. scan_directory fs (abspath fs (path a)) (files a) = Inr findings
           \<and> (exit_status (main_with fs a) \<noteq> 0 \<longleftrightarrow> (\<exists>f\<in>set findings. severity f = ''critical''))
           \<and> exit_status (main_with fs (a\<lparr>min_sev := s\<rparr>)) = exit_status (main_with fs a)
           \<and> (parse_args argv = Inr a \<longrightarrow>
                 (exit_status (main fs argv) \<noteq> 0 \<longleftrightarrow> (\<exists>f\<in>set findings. severity f = ''critical'')))
           \<and> (parse_args argv = Inr a \<and> parse_args argv' = Inr (a\<lparr>min_sev := s\<rparr>) \<longrightarrow>
                 exit_status (main fs argv') = exit_status (main fs argv))"
proof -
  from main_completed [OF assms] obtain findings where
    f: "scan_directory fs (abspath fs (path a)) (files a) = Inr findings"
       "main_with fs a = Completed (verdict findings) findings (filtered findings (min_sev a))"
    by blast
  have "isdir fs (abspath fs (path (a\<lparr>min_sev := s\<rparr>)))" using assms by simp
  from main_completed [OF this] f(1)
  have "main_with fs (a\<lparr>min_sev := s\<rparr>) = Completed (verdict findings) findings (filtered findings s)"
    by simp
  with f show ?thesis by (auto simp: verdict_iff main_parsed)
qed

theorem exit_status_nonzero_iff_critical_finding_witness:
  "isdir demo_fs (abspath demo_fs (path \<lparr>path = ''/p'', min_sev = ''low'', files = None\<rparr>))
   \<and> exit_status (main_with demo_fs \<lparr>path = ''/p'', min_sev = ''low'', files = None\<rparr>) \<noteq> 0
   \<and> exit_status (main_with demo_fs \<lparr>path = ''/p'', min_sev = ''critical'', files = None\<rparr>) \<noteq> 0
   \<and> parse_args [''/p''] = Inr \<lparr>path = ''/p'', min_sev = ''low'', files = None\<rparr>
   \<and> parse_args [''/p'', ''--severity'', ''critical'']
        = Inr \<lparr>path = ''/p'', min_sev = ''critical'', files = None\<rparr>
   \<and> exit_status (main demo_fs [''/p'']) \<noteq> 0
   \<and> exit_status (main demo_fs [''/p'', ''--severity'', ''critical'']) \<noteq> 0"
proof -
  let ?a = "\<lparr>path = ''/p'', min_sev = ''low'', files = None\<rparr>"
  have h: "isdir demo_fs (abspath demo_fs (path ?a))"
    by (simp add: abspath_demo_root isdir_demo_root)
  from scan_demo_walk [of None] obtain rest where
    r: "scan_directory demo_fs ''/p'' None = Inr (password_finding ''a.py'' 1 # rest)"
    by blast
  have p: "parse_args [''/p''] = Inr ?a"
      "parse_args [''/p'', ''--severity'', ''critical''] = Inr (?a\<lparr>min_sev := ''critical''\<rparr>)"
    by (simp_all add: parse_demo)
  from exit_status_nonzero_iff_critical_finding
         [OF h, of "''critical''" "[''/p'']" "[''/p'', ''--severity'', ''critical'']"] r h p
  show ?thesis
    by (auto simp: abspath_demo_root)
qed

text \<open>
  C2: when floor \<open>S1\<close> has a rank at most that of floor \<open>S2\<close>, the findings displayed at \<open>S1\<close>
  are among those displayed at \<open>S2\<close>, as sets and with multiplicities, and an invocation
  exits with the same status under both floors: \<open>main\<close> from the namespace on, and so
  \<open>main\<close> on two command lines that differ in the floor alone.
\<close>

theorem stricter_floor_displays_subset:
  assumes "rank S1 \<le> rank S2"
  shows "set (filtered findings S1) \<subseteq> set (filtered findings S2)
         \<and> mset (filtered findings S1) \<subseteq># mset (filtered findings S2)
         \<and> exit_status (main_with fs (a\<lparr>min_sev := S1\<rparr>)) = exit_status (main_with fs (a\<lparr>min_sev := S2\<rparr>))
         \<and> (parse_args argv1 = Inr (a\<lparr>min_sev := S1\<rparr>) \<and> parse_args argv2 = Inr (a\<lparr>min_sev := S2\<rparr>)
              \<longrightarrow> exit_status (main fs argv1) = exit_status (main fs argv2))"
proof (intro conjI impI)
  show "set (filtered findings S1) \<subseteq> set (filtered findings S2)"
    using assms by (auto simp: set_filtered)
  show "mset (filtered findings S1) \<subseteq># mset (filtered findings S2)"
    unfolding mset_filtered using assms
    by (intro filter_mset_mono_strong) auto
  show e: "exit_status (main_with fs (a\<lparr>min_sev := S1\<rparr>)) = exit_status (main_with fs (a\<lparr>min_sev := S2\<rparr>))"
    by (simp add: main_with_def Let_def scan_directory_eq)
  show "exit_status (main fs argv1) = exit_status (main fs argv2)"
    if "parse_args argv1 = Inr (a\<lparr>min_sev := S1\<rparr>) \<and> parse_args argv2 = Inr (a\<lparr>min_sev := S2\<rparr>)"
    using that e by (simp add: main_parsed)
qed

theorem stricter_floor_displays_subset_witness:
  "rank ''high'' \<le> rank ''low''
   \<and> set (filtered [password_finding ''a.py'' 1] ''high'') \<subseteq> set (filtered [password_finding ''a.py'' 1] ''low'')
   \<and> exit_status (main_with demo_fs \<lparr>path = ''/p'', min_sev = ''high'', files = None\<rparr>)
       = exit_status (main_with demo_fs \<lparr>path = ''/p'', min_sev = ''low'', files = None\<rparr>)
   \<and> parse_args [''/p'', ''--severity'', ''high''] = Inr \<lparr>path = ''/p'', min_sev = ''high'', files = None\<rparr>
   \<and> parse_args [''/p''] = Inr \<lparr>path = ''/p'', min_sev = ''low'', files = None\<rparr>
   \<and> exit_status (main demo_fs [''/p'', ''--severity'', ''high'']) = exit_status (main demo_fs [''/p''])"
proof -
  have h: "rank ''high'' \<le> rank ''low''"
    by (simp add: rank_def SEVERITY_RANK_def)
  have p: "parse_args [''/p'', ''--severity'', ''high'']
             = Inr (\<lparr>path = ''/p'', min_sev = ''low'', files = None\<rparr>\<lparr>min_sev := ''high''\<rparr>)"
    "parse_args [''/p''] = Inr (\<lparr>path = ''/p'', min_sev = ''low'', files = None\<rparr>\<lparr>min_sev := ''low''\<rparr>)"
    by (simp_all add: parse_demo)
  from stricter_floor_displays_subset [OF h, of "[password_finding ''a.py'' 1]" demo_fs
         "\<lparr>path = ''/p'', min_sev = ''low'', files = None\<rparr>"
         "[''/p'', ''--severity'', ''high'']" "[''/p'']"] h p
  show ?thesis by simp
qed

subsection \<open>Discovery order\<close>










subsection \<open>More of the small project\<close>

lemma abs_path_demo: "abs_path_of ''/p'' ''a.py'' = ''/p/a.py''"
  "abs_path_of ''/p'' ''notes.txt'' = ''/p/notes.txt''"
  "abs_path_of ''/p'' ''missing.py'' = ''/p/missing.py''"
  "abs_path_of ''/p'' ''locked.py'' = ''/p/locked.py''"
  by (simp_all add: abs_path_of_def isabs_def startswith_def os_path_join_def)

lemma resolve_demo_files:
  "resolve demo_fs ''/p/a.py'' = Some (text_file pw_line)"
  "resolve demo_fs ''/p/notes.txt'' = Some (text_file pw_line)"
  "resolve demo_fs ''/p/locked.py'' = Some (File None)"
  "resolve demo_fs ''/p/missing.py'' = None"
  by (simp_all add: resolve_def isabs_def startswith_def demo_fs_def project_def)

lemma isfile_demo:
  "isfile demo_fs ''/p/a.py''" "isfile demo_fs ''/p/notes.txt''" "isfile demo_fs ''/p/locked.py''"
  "\<not> isfile demo_fs ''/p/missing.py''"
  by (simp_all add: isfile_def resolve_demo_files)

lemma open_demo:
  "open_readlines demo_fs ''/p/a.py'' = Inr [pw_line]"
  "open_readlines demo_fs ''/p/notes.txt'' = Inr [pw_line]"
  "open_readlines demo_fs ''/p/locked.py'' = Inl OSError"
  by (simp_all add: open_readlines_def resolve_demo_files read_demo)

lemma rel_path_demo_notes: "rel_path_of demo_fs ''/p/notes.txt'' ''/p'' = ''notes.txt''"
  by (simp add: rel_path_of_def relpath_def abspath_def isabs_def startswith_def normpath_def Let_def)

lemma scan_opened_pw:
  "\<exists>rest. scan_opened rel (Inr [pw_line]) = password_finding rel 1 # rest"
  by (simp add: scan_opened_def scan_lines_def
        scan_line_password [OF strip_pw_line])

lemma suffix_notes: "path_suffix ''notes.txt'' \<notin> SOURCE_EXTENSIONS"
  by (simp add: path_suffix_def SOURCE_EXTENSIONS_def)

subsection \<open>An explicit subset of files\<close>

lemma traversal_targets:
  "tf \<noteq> [] \<Longrightarrow>
     traversal fs root (Some tf) =
       concat (map (\<lambda>fpath. if isfile fs (abs_path_of root fpath)
                             then [(abs_path_of root fpath, open_readlines fs (abs_path_of root fpath))]
                             else []) tf)"
  by (cases tf) (simp_all add: traversal_def Let_def)

lemma traversal_walk:
  "tf = None \<or> tf = Some [] \<Longrightarrow>
     traversal fs root tf =
       (case resolve fs root of
          Some (Dir es) \<Rightarrow> concat (map listed_files (os_walk root (Dir es)))
        | _ \<Rightarrow> [])"
  by (auto simp: traversal_def)

lemma scan_directory_targets:
  assumes "tf \<noteq> []"
  shows "scan_directory fs root (Some tf) =
           Inr (concat (map (\<lambda>fpath. if isfile fs (abs_path_of root fpath)
                  then scan_opened (rel_path_of fs (abs_path_of root fpath) root)
                         (open_readlines fs (abs_path_of root fpath))
                  else []) tf))"
proof -
  have "concat (map (\<lambda>(p, opened). scan_opened (rel_path_of fs p root) opened)
          (concat (map (\<lambda>fpath. if isfile fs (abs_path_of root fpath)
                             then [(abs_path_of root fpath, open_readlines fs (abs_path_of root fpath))]
                             else []) xs))) =
        concat (map (\<lambda>fpath. if isfile fs (abs_path_of root fpath)
                  then scan_opened (rel_path_of fs (abs_path_of root fpath) root)
                         (open_readlines fs (abs_path_of root fpath))
                  else []) xs)" for xs
    by (induction xs) simp_all
  then show ?thesis
    by (simp add: scan_directory_eq traversal_targets [OF assms])
qed

text \<open>
  C5, as the code has it: a subset that is not empty replaces the traversal. The result is
  the findings of the supplied paths in their order, each path joined to the root unless it
  is absolute, and a path that is not an existing file contributes nothing.
\<close>

theorem nonempty_subset_replaces_traversal:
  assumes "tf \<noteq> []"
  shows "scan_directory fs root (Some tf) =
           Inr (concat (map (\<lambda>fpath.
                  let abs_path = (if isabs fpath then fpath else os_path_join root fpath)
                  in if isfile fs abs_path
                     then scan_opened (rel_path_of fs abs_path root) (open_readlines fs abs_path)
                     else []) tf))
         \<and> ((\<forall>fpath\<in>set tf. \<not> isfile fs (if isabs fpath then fpath else os_path_join root fpath))
              \<longrightarrow> scan_directory fs root (Some tf) = Inr [])"
proof -
  have a: "abs_path_of root fpath = (if isabs fpath then fpath else os_path_join root fpath)" for fpath
    by (simp add: abs_path_of_def)
  have 1: "scan_directory fs root (Some tf) =
           Inr (concat (map (\<lambda>fpath.
                  let abs_path = (if isabs fpath then fpath else os_path_join root fpath)
                  in if isfile fs abs_path
                     then scan_opened (rel_path_of fs abs_path root) (open_readlines fs abs_path)
                     else []) tf))"
    unfolding scan_directory_targets [OF assms] a Let_def ..
  moreover have "scan_directory fs root (Some tf) = Inr []"
    if "\<forall>fpath\<in>set tf. \<not> isfile fs (if isabs fpath then fpath else os_path_join root fpath)"
    unfolding 1 using that by (induction tf) (simp_all add: Let_def)
  ultimately show ?thesis by blast
qed

theorem nonempty_subset_replaces_traversal_witness:
  "[''a.py'', ''missing.py''] \<noteq> []
   \<and> (\<exists>rest. scan_directory demo_fs ''/p'' (Some [''a.py'', ''missing.py'']) =
         Inr (password_finding ''a.py'' 1 # rest))
   \<and> scan_directory demo_fs ''/p'' (Some [''missing.py'']) = Inr []"
proof -
  have h: "[''a.py'', ''missing.py''] \<noteq> ([] :: string list)" by simp
  have h': "[''missing.py''] \<noteq> ([] :: string list)" by simp
  have a: "(if isabs ''a.py'' then ''a.py'' else os_path_join ''/p'' ''a.py'') = ''/p/a.py''"
          "(if isabs ''missing.py'' then ''missing.py'' else os_path_join ''/p'' ''missing.py'') = ''/p/missing.py''"
    by (simp_all add: isabs_def startswith_def os_path_join_def)
  from scan_opened_pw [of "''a.py''"] obtain rest where
    r: "scan_opened ''a.py'' (Inr [pw_line]) = password_finding ''a.py'' 1 # rest" by blast
  from nonempty_subset_replaces_traversal [OF h, of demo_fs "''/p''"]
  have "scan_directory demo_fs ''/p'' (Some [''a.py'', ''missing.py'']) = Inr (password_finding ''a.py'' 1 # rest)"
    by (simp add: a isfile_demo open_demo rel_path_demo_a r Let_def)
  moreover from nonempty_subset_replaces_traversal [OF h', of demo_fs "''/p''"]
  have "scan_directory demo_fs ''/p'' (Some [''missing.py'']) = Inr []"
    by (simp add: a isfile_demo)
  ultimately show ?thesis by blast
qed

text \<open>
  The claim as worded fails for the empty subset: \<open>if target_files:\<close> takes an empty list
  for no list, so the project is traversed and its findings are returned.
\<close>

theorem empty_subset_is_traversed:
  "scan_directory demo_fs ''/p'' (Some []) = scan_directory demo_fs ''/p'' None
   \<and> scan_directory demo_fs ''/p'' (Some []) \<noteq> Inr []"
proof -
  from scan_demo_walk [of "Some []"] obtain rest where
    "scan_directory demo_fs ''/p'' (Some []) = Inr (password_finding ''a.py'' 1 # rest)" by blast
  then show ?thesis by (simp add: scan_directory_def)
qed

subsection \<open>The allow-list of extensions\<close>

lemma scan_opened_file: "f \<in> set (scan_opened rel opened) \<Longrightarrow> file f = rel"
  by (cases opened) (auto simp: scan_opened_def scan_lines_mem dest: scan_line_fields(1))

lemma listed_files_mem:
  "(p, opened) \<in> set (listed_files (r, ds, entries)) \<longleftrightarrow>
     (\<exists>filename. (filename, opened) \<in> set entries \<and> path_suffix filename \<in> SOURCE_EXTENSIONS
        \<and> p = os_path_join r filename)"
  by (auto simp: listed_files_def)

lemma scan_directory_walk:
  assumes "tf = None \<or> tf = Some []" and "resolve fs root = Some (Dir es)"
  shows "scan_directory fs root tf =
           Inr (concat (map (\<lambda>(p, opened). scan_opened (rel_path_of fs p root) opened)
                  (concat (map listed_files (os_walk root (Dir es))))))"
  using assms by (simp add: scan_directory_eq traversal_walk del: os_walk.simps)

lemma rel_path_demo_more:
  "rel_path_of demo_fs ''/p/locked.py'' ''/p'' = ''locked.py''"
  "rel_path_of demo_fs ''/p/src/b.js'' ''/p'' = ''src/b.js''"
  by (simp_all add: rel_path_of_def relpath_def abspath_def isabs_def startswith_def normpath_def Let_def)

lemma suffix_demo:
  "path_suffix ''a.py'' \<in> SOURCE_EXTENSIONS"
  by (simp add: path_suffix_def SOURCE_EXTENSIONS_def)

lemma join_demo:
  "os_path_join ''/p'' ''a.py'' = ''/p/a.py''"
  "os_path_join ''/p'' ''notes.txt'' = ''/p/notes.txt''"
  "os_path_join ''/p'' ''locked.py'' = ''/p/locked.py''"
  "os_path_join ''/p/src'' ''b.js'' = ''/p/src/b.js''"
  by (simp_all add: os_path_join_def startswith_def)

text \<open>
  C10: a file of an explicit subset is scanned whatever its extension: when it exists, all
  its findings are in the result. In a traversal, the findings are exactly those of the
  listed entries whose suffix is in \<open>SOURCE_EXTENSIONS\<close>.
\<close>

theorem allow_list_applies_to_traversal_only:
  "(fpath \<in> set tfs \<and> isfile fs (abs_path_of root fpath) \<longrightarrow>
      (\<exists>fnds. scan_directory fs root (Some tfs) = Inr fnds
         \<and> set (scan_opened (rel_path_of fs (abs_path_of root fpath) root)
                  (open_readlines fs (abs_path_of root fpath))) \<subseteq> set fnds))
   \<and> ((tf = None \<or> tf = Some []) \<and> resolve fs root = Some (Dir es) \<longrightarrow>
      (\<exists>fnds. scan_directory fs root tf = Inr fnds \<and>
        (\<forall>f. f \<in> set fnds \<longleftrightarrow>
          (\<exists>r ds entries filename opened.
             (r, ds, entries) \<in> set (os_walk root (Dir es)) \<and> (filename, opened) \<in> set entries
             \<and> path_suffix filename \<in> SOURCE_EXTENSIONS
             \<and> f \<in> set (scan_opened (rel_path_of fs (os_path_join r filename) root) opened)))))"
proof (intro conjI impI)
  assume a: "fpath \<in> set tfs \<and> isfile fs (abs_path_of root fpath)"
  then have "tfs \<noteq> []" by auto
  from scan_directory_targets [OF this] a
  show "\<exists>fnds. scan_directory fs root (Some tfs) = Inr fnds
         \<and> set (scan_opened (rel_path_of fs (abs_path_of root fpath) root)
                  (open_readlines fs (abs_path_of root fpath))) \<subseteq> set fnds"
    by fastforce
next
  assume a: "(tf = None \<or> tf = Some []) \<and> resolve fs root = Some (Dir es)"
  let ?fnds = "concat (map (\<lambda>(p, opened). scan_opened (rel_path_of fs p root) opened)
                  (concat (map listed_files (os_walk root (Dir es)))))"
  from a have s: "scan_directory fs root tf = Inr ?fnds"
    by (intro scan_directory_walk) auto
  have "f \<in> set ?fnds \<longleftrightarrow>
          (\<exists>r ds entries filename opened.
             (r, ds, entries) \<in> set (os_walk root (Dir es)) \<and> (filename, opened) \<in> set entries
             \<and> path_suffix filename \<in> SOURCE_EXTENSIONS
             \<and> f \<in> set (scan_opened (rel_path_of fs (os_path_join r filename) root) opened))" for f
  proof
    assume "f \<in> set ?fnds"
    then obtain l p opened where l: "l \<in> set (os_walk root (Dir es))"
      and p: "(p, opened) \<in> set (listed_files l)"
      and f: "f \<in> set (scan_opened (rel_path_of fs p root) opened)"
      by (auto simp del: os_walk.simps)
    obtain r ds entries where le: "l = (r, ds, entries)" by (cases l)
    from p obtain filename where
      "(filename, opened) \<in> set entries" "path_suffix filename \<in> SOURCE_EXTENSIONS"
      "p = os_path_join r filename"
      unfolding le listed_files_mem by blast
    with l f le show "\<exists>r ds entries filename opened.
             (r, ds, entries) \<in> set (os_walk root (Dir es)) \<and> (filename, opened) \<in> set entries
             \<and> path_suffix filename \<in> SOURCE_EXTENSIONS
             \<and> f \<in> set (scan_opened (rel_path_of fs (os_path_join r filename) root) opened)"
      by blast
  next
    assume "\<exists>r ds entries filename opened.
             (r, ds, entries) \<in> set (os_walk root (Dir es)) \<and> (filename, opened) \<in> set entries
             \<and> path_suffix filename \<in> SOURCE_EXTENSIONS
             \<and> f \<in> set (scan_opened (rel_path_of fs (os_path_join r filename) root) opened)"
    then obtain r ds entries filename opened where
      l: "(r, ds, entries) \<in> set (os_walk root (Dir es))" and
      e: "(filename, opened) \<in> set entries" "path_suffix filename \<in> SOURCE_EXTENSIONS" and
      f: "f \<in> set (scan_opened (rel_path_of fs (os_path_join r filename) root) opened)"
      by blast
    from e have "(os_path_join r filename, opened) \<in> set (listed_files (r, ds, entries))"
      by (auto simp: listed_files_mem)
    with l f show "f \<in> set ?fnds"
      by (force simp del: os_walk.simps)
  qed
  with s show "\<exists>fnds. scan_directory fs root tf = Inr fnds \<and>
        (\<forall>f. f \<in> set fnds \<longleftrightarrow>
          (\<exists>r ds entries filename opened.
             (r, ds, entries) \<in> set (os_walk root (Dir es)) \<and> (filename, opened) \<in> set entries
             \<and> path_suffix filename \<in> SOURCE_EXTENSIONS
             \<and> f \<in> set (scan_opened (rel_path_of fs (os_path_join r filename) root) opened)))"
    by blast
qed

theorem allow_list_applies_to_traversal_only_witness:
  "''notes.txt'' \<in> set [''notes.txt''] \<and> isfile demo_fs (abs_path_of ''/p'' ''notes.txt'')
   \<and> path_suffix ''notes.txt'' \<notin> SOURCE_EXTENSIONS
   \<and> (\<exists>fnds. scan_directory demo_fs ''/p'' (Some [''notes.txt'']) = Inr fnds
          \<and> password_finding ''notes.txt'' 1 \<in> set fnds)
   \<and> resolve demo_fs ''/p'' = Some (Dir project)
   \<and> (\<exists>fnds. scan_directory demo_fs ''/p'' None = Inr fnds
          \<and> password_finding ''a.py'' 1 \<in> set fnds
          \<and> password_finding ''notes.txt'' 1 \<notin> set fnds)"
proof -
  have h1: "''notes.txt'' \<in> set [''notes.txt''] \<and> isfile demo_fs (abs_path_of ''/p'' ''notes.txt'')"
    by (simp add: abs_path_demo isfile_demo)
  have h2: "(None = None \<or> None = Some ([] :: string list)) \<and> resolve demo_fs ''/p'' = Some (Dir project)"
    by (simp add: resolve_demo_root)
  note t = allow_list_applies_to_traversal_only
             [where fpath = "''notes.txt''" and tfs = "[''notes.txt'']" and fs = demo_fs
                and root = "''/p''" and tf = None and es = project]
  from t h1 obtain fnds1 where
    f1: "scan_directory demo_fs ''/p'' (Some [''notes.txt'']) = Inr fnds1"
        "set (scan_opened (rel_path_of demo_fs (abs_path_of ''/p'' ''notes.txt'') ''/p'')
                  (open_readlines demo_fs (abs_path_of ''/p'' ''notes.txt''))) \<subseteq> set fnds1"
    by blast
  from scan_opened_pw [of "''notes.txt''"] f1(2)
  have m1: "password_finding ''notes.txt'' 1 \<in> set fnds1"
    by (auto simp: abs_path_demo open_demo rel_path_demo_notes)
  from t h2 obtain fnds2 where
    f2: "scan_directory demo_fs ''/p'' None = Inr fnds2"
        "\<And>f. f \<in> set fnds2 \<longleftrightarrow>
          (\<exists>r ds entries filename opened.
             (r, ds, entries) \<in> set (os_walk ''/p'' (Dir project)) \<and> (filename, opened) \<in> set entries
             \<and> path_suffix filename \<in> SOURCE_EXTENSIONS
             \<and> f \<in> set (scan_opened (rel_path_of demo_fs (os_path_join r filename) ''/p'') opened))"
    by blast
  from scan_opened_pw [of "''a.py''"]
  have "password_finding ''a.py'' 1 \<in> set (scan_opened (rel_path_of demo_fs (os_path_join ''/p'' ''a.py'') ''/p'') (Inr [pw_line]))"
    by (auto simp: join_demo rel_path_demo_a)
  with suffix_demo have m2: "password_finding ''a.py'' 1 \<in> set fnds2"
    unfolding f2(2) os_walk_demo
    by (intro exI [of _ "''/p''"] exI [of _ "[''src'']"]
          exI [of _ "[(''a.py'', Inr [pw_line]), (''notes.txt'', Inr [pw_line]), (''locked.py'', Inl OSError)]"]
          exI [of _ "''a.py''"] exI [of _ "Inr [pw_line]"]) simp
  have m3: "password_finding ''notes.txt'' 1 \<notin> set fnds2"
  proof
    assume "password_finding ''notes.txt'' 1 \<in> set fnds2"
    then obtain r ds entries filename opened where
      l: "(r, ds, entries) \<in> set (os_walk ''/p'' (Dir project))" "(filename, opened) \<in> set entries"
         "path_suffix filename \<in> SOURCE_EXTENSIONS"
         "password_finding ''notes.txt'' 1 \<in> set (scan_opened (rel_path_of demo_fs (os_path_join r filename) ''/p'') opened)"
      unfolding f2(2) by blast
    from l(4) have "rel_path_of demo_fs (os_path_join r filename) ''/p'' = ''notes.txt''"
      by (auto dest: scan_opened_file)
    with l(1,2,3) show False
      unfolding os_walk_demo
      by (auto simp: join_demo rel_path_demo_a rel_path_demo_more suffix_notes)
  qed
  from h1 suffix_notes f1(1) m1 h2 f2(1) m2 m3 show ?thesis by blast
qed

subsection \<open>Failures: the root and single files\<close>

lemma scan_target_flat:
  "scan_target fs root fpath =
     Inr (if isfile fs (abs_path_of root fpath)
          then scan_opened (rel_path_of fs (abs_path_of root fpath) root)
                 (open_readlines fs (abs_path_of root fpath))
          else [])"
  by (simp add: scan_target_eq Let_def)

lemma scan_target_unreadable:
  "open_readlines fs (abs_path_of root q) = Inl OSError \<Longrightarrow> scan_target fs root q = Inr []"
  by (simp add: scan_target_flat scan_opened_def)






subsection \<open>Pruned directories\<close>

lemma is_dir_emptied [simp]: "is_dir (emptied t) = is_dir t"
  by (cases t) simp_all








lemma rel_path_of_cwd:
  "cwd fs = cwd fs' \<Longrightarrow> rel_path_of fs p root = rel_path_of fs' p root"
  by (simp add: rel_path_of_def relpath_def abspath_def)





subsection \<open>Determinism\<close>

lemma isfile_resolve: "resolve fs p = resolve fs' p \<Longrightarrow> isfile fs p = isfile fs' p"
  by (simp add: isfile_def)

lemma open_resolve: "resolve fs p = resolve fs' p \<Longrightarrow> open_readlines fs p = open_readlines fs' p"
  by (simp add: open_readlines_def)

lemma isdir_resolve: "resolve fs p = resolve fs' p \<Longrightarrow> isdir fs p = isdir fs' p"
  by (simp add: isdir_def)

lemma abspath_cwd: "cwd fs = cwd fs' \<Longrightarrow> abspath fs p = abspath fs' p"
  by (simp add: abspath_def)

lemma traversal_same_tree:
  assumes "tf = None \<or> tf = Some []" and "resolve fs root = resolve fs' root"
  shows "traversal fs root tf = traversal fs' root tf"
  using assms by (auto simp: traversal_def)

lemma traversal_same_targets:
  assumes "tf \<noteq> []"
    and "\<forall>fpath\<in>set tf. resolve fs (abs_path_of root fpath) = resolve fs' (abs_path_of root fpath)"
  shows "traversal fs root (Some tf) = traversal fs' root (Some tf)"
proof -
  have "(if isfile fs (abs_path_of root y)
           then [(abs_path_of root y, open_readlines fs (abs_path_of root y))] else []) =
        (if isfile fs' (abs_path_of root y)
           then [(abs_path_of root y, open_readlines fs' (abs_path_of root y))] else [])"
    if "y \<in> set tf" for y
  proof -
    from assms(2) that have r: "resolve fs (abs_path_of root y) = resolve fs' (abs_path_of root y)"
      by blast
    show ?thesis
      by (simp only: isfile_resolve [OF r] open_resolve [OF r])
  qed
  then have "map (\<lambda>y. if isfile fs (abs_path_of root y)
           then [(abs_path_of root y, open_readlines fs (abs_path_of root y))] else []) tf =
        map (\<lambda>y. if isfile fs' (abs_path_of root y)
           then [(abs_path_of root y, open_readlines fs' (abs_path_of root y))] else []) tf"
    by (intro map_cong refl)
  then show ?thesis
    by (simp only: traversal_targets [OF assms(1)])
qed

lemma scan_directory_same_files:
  assumes "cwd fs = cwd fs'" and "traversal fs root tf = traversal fs' root tf"
  shows "scan_directory fs root tf = scan_directory fs' root tf"
  by (simp only: scan_directory_eq assms(2) rel_path_of_cwd [OF assms(1)])

text \<open>
  C8: the findings are a function of what the scan reads and of nothing else. Two file
  systems with the same working directory and the same tree under the root give the same
  list, in content and order, whatever else differs between them; so do two that agree on
  the files of a subset. An invocation ends alike on both, from the namespace on and from
  the command line on, and the display floor changes neither the list of findings nor the
  status.
\<close>

theorem scans_of_an_unchanged_tree_agree:
  "((tf = None \<or> tf = Some []) \<and> cwd fs = cwd fs' \<and> resolve fs root = resolve fs' root
      \<longrightarrow> scan_directory fs root tf = scan_directory fs' root tf)
   \<and> (tfs \<noteq> [] \<and> cwd fs = cwd fs'
        \<and> (\<forall>fpath\<in>set tfs. resolve fs (abs_path_of root fpath) = resolve fs' (abs_path_of root fpath))
      \<longrightarrow> scan_directory fs root (Some tfs) = scan_directory fs' root (Some tfs))
   \<and> ((files a = None \<or> files a = Some []) \<and> cwd fs = cwd fs'
        \<and> resolve fs (abspath fs (path a)) = resolve fs' (abspath fs (path a))
      \<longrightarrow> main_with fs a = main_with fs' a)
   \<and> (main_with fs a = Completed status findings shown
      \<longrightarrow> main_with fs (a\<lparr>min_sev := s\<rparr>) = Completed status findings (filtered findings s))
   \<and> (parse_args argv = Inr a \<and> (files a = None \<or> files a = Some []) \<and> cwd fs = cwd fs'
        \<and> resolve fs (abspath fs (path a)) = resolve fs' (abspath fs (path a))
      \<longrightarrow> main fs argv = main fs' argv)
   \<and> (parse_args argv = Inl n \<longrightarrow> main fs argv = main fs' argv)"
proof (intro conjI impI)
  assume "(tf = None \<or> tf = Some []) \<and> cwd fs = cwd fs' \<and> resolve fs root = resolve fs' root"
  then show "scan_directory fs root tf = scan_directory fs' root tf"
    by (intro scan_directory_same_files traversal_same_tree) auto
next
  assume "tfs \<noteq> [] \<and> cwd fs = cwd fs'
        \<and> (\<forall>fpath\<in>set tfs. resolve fs (abs_path_of root fpath) = resolve fs' (abs_path_of root fpath))"
  then show "scan_directory fs root (Some tfs) = scan_directory fs' root (Some tfs)"
    by (intro scan_directory_same_files traversal_same_targets) auto
next
  assume a: "(files a = None \<or> files a = Some []) \<and> cwd fs = cwd fs'
        \<and> resolve fs (abspath fs (path a)) = resolve fs' (abspath fs (path a))"
  then have c: "cwd fs = cwd fs'"
    and r: "resolve fs (abspath fs (path a)) = resolve fs' (abspath fs (path a))"
    and f: "files a = None \<or> files a = Some []"
    by auto
  have "scan_directory fs (abspath fs (path a)) (files a) = scan_directory fs' (abspath fs (path a)) (files a)"
    using c r f by (intro scan_directory_same_files traversal_same_tree)
  then show "main_with fs a = main_with fs' a"
    by (simp add: main_with_def Let_def abspath_cwd [OF c, symmetric] isdir_resolve [OF r])
next
  assume "main_with fs a = Completed status findings shown"
  then show "main_with fs (a\<lparr>min_sev := s\<rparr>) = Completed status findings (filtered findings s)"
    by (auto simp: main_with_def Let_def split: if_splits sum.splits)
next
  assume a: "parse_args argv = Inr a \<and> (files a = None \<or> files a = Some []) \<and> cwd fs = cwd fs'
        \<and> resolve fs (abspath fs (path a)) = resolve fs' (abspath fs (path a))"
  then have c: "cwd fs = cwd fs'"
    and r: "resolve fs (abspath fs (path a)) = resolve fs' (abspath fs (path a))"
    and f: "files a = None \<or> files a = Some []"
    by auto
  have "scan_directory fs (abspath fs (path a)) (files a) = scan_directory fs' (abspath fs (path a)) (files a)"
    using c r f by (intro scan_directory_same_files traversal_same_tree)
  then have "main_with fs a = main_with fs' a"
    by (simp add: main_with_def Let_def abspath_cwd [OF c, symmetric] isdir_resolve [OF r])
  with a show "main fs argv = main fs' argv"
    by (simp add: main_parsed)
next
  assume "parse_args argv = Inl n"
  then show "main fs argv = main fs' argv"
    by (simp add: main_rejected)
qed

lemma resolve_grown:
  "resolve grown_fs ''/p'' = Some (Dir project)"
  "resolve grown_fs ''/p/a.py'' = Some (text_file pw_line)"
  by (simp_all add: resolve_def isabs_def startswith_def grown_fs_def project_def)

theorem scans_of_an_unchanged_tree_agree_witness:
  "cwd demo_fs = cwd grown_fs \<and> resolve demo_fs ''/p'' = resolve grown_fs ''/p''
   \<and> demo_fs \<noteq> grown_fs
   \<and> scan_directory demo_fs ''/p'' None = scan_directory grown_fs ''/p'' None
   \<and> scan_directory demo_fs ''/p'' (Some [''a.py'']) = scan_directory grown_fs ''/p'' (Some [''a.py''])
   \<and> main_with demo_fs \<lparr>path = ''/p'', min_sev = ''low'', files = None\<rparr>
       = main_with grown_fs \<lparr>path = ''/p'', min_sev = ''low'', files = None\<rparr>
   \<and> parse_args [''/p''] = Inr \<lparr>path = ''/p'', min_sev = ''low'', files = None\<rparr>
   \<and> main demo_fs [''/p''] = main grown_fs [''/p'']"
proof -
  let ?a = "\<lparr>path = ''/p'', min_sev = ''low'', files = None\<rparr>"
  have c: "cwd demo_fs = cwd grown_fs" by (simp add: demo_fs_def grown_fs_def)
  have r: "resolve demo_fs ''/p'' = resolve grown_fs ''/p''"
    by (simp add: resolve_demo_root resolve_grown project_def)
  have h1: "(None = None \<or> None = Some ([] :: string list)) \<and> cwd demo_fs = cwd grown_fs
              \<and> resolve demo_fs ''/p'' = resolve grown_fs ''/p''"
    using c r by simp
  have h2: "[''a.py''] \<noteq> [] \<and> cwd demo_fs = cwd grown_fs
        \<and> (\<forall>fpath\<in>set [''a.py'']. resolve demo_fs (abs_path_of ''/p'' fpath) = resolve grown_fs (abs_path_of ''/p'' fpath))"
    using c by (simp add: abs_path_demo resolve_demo_files resolve_grown)
  have h3: "(files ?a = None \<or> files ?a = Some []) \<and> cwd demo_fs = cwd grown_fs
        \<and> resolve demo_fs (abspath demo_fs (path ?a)) = resolve grown_fs (abspath demo_fs (path ?a))"
    using c r by (simp add: abspath_demo_root)
  have d: "demo_fs \<noteq> grown_fs" by (simp add: demo_fs_def grown_fs_def)
  have h4: "parse_args [''/p''] = Inr ?a"
    by (simp add: parse_demo)
  note t = scans_of_an_unchanged_tree_agree
      [where tf = None and fs = demo_fs and fs' = grown_fs and root = "''/p''" and tfs = "[''a.py'']"
         and a = ?a and argv = "[''/p'']"]
  from t h1 h2 h3 h4 c r d show ?thesis by blast
qed

end
